theory Spec2Isabelle
  imports Main "HOL-Library.Word" "HOL-Library.Signed_Division"
begin

section \<open>Machine types of the ESP32 target\<close>

text \<open>
  Both sketches are built for the ESP32 (ILP32): \<open>unsigned long\<close> is a 32-bit
  unsigned integer whose arithmetic wraps modulo \<open>2 ^ 32\<close>. The \<open>int\<close> arguments
  of the calendar functions are modelled by mathematical integers standing for the C
  values; the only signed arithmetic on them (\<open>y++\<close>, \<open>m++\<close>, \<open>day - 1\<close>) stays in
  the range of \<open>int\<close> for every argument the GPS decoder can deliver. A conversion of
  an \<open>int\<close> to \<open>unsigned long\<close> is \<open>word_of_int\<close>.
\<close>

type_synonym ulong = "32 word"

section \<open>gps\_esp.ino: calendar to epoch\<close>

text \<open>
  \<^verbatim>\<open>return (year % 4 == 0 && year % 100 != 0) || (year % 400 == 0);\<close>
  C's \<open>%\<close> truncates towards zero: \<open>smod\<close>.
\<close>

definition isLeapYear :: "int \<Rightarrow> bool" where
  "isLeapYear year \<longleftrightarrow> (year smod 4 = 0 \<and> year smod 100 \<noteq> 0) \<or> year smod 400 = 0"

text \<open>
  \<^verbatim>\<open>int daysInMonth[] = {0, 31, 28, ...}; if (isLeapYear(year)) daysInMonth[2] = 29;\<close>
\<close>

definition daysInMonth :: "int \<Rightarrow> int list" where
  "daysInMonth year =
     (let tbl = [0, 31, 28, 31, 30, 31, 30, 31, 31, 30, 31, 30, 31]
      in if isLeapYear year then tbl[2 := 29] else tbl)"

text \<open>
  \<^verbatim>\<open>for (int y = 1970; y < year; y++) days += isLeapYear(y) ? 366 : 365;\<close>
\<close>

function year_loop :: "int \<Rightarrow> int \<Rightarrow> ulong \<Rightarrow> ulong" where
  "year_loop y year days =
     (if y < year
      then year_loop (y + 1) year (days + (if isLeapYear y then 366 else 365))
      else days)"
  by pat_completeness auto
termination
  by (relation "measure (\<lambda>(y, year, days). nat (year - y))") auto

text \<open>
  \<^verbatim>\<open>for (int m = 1; m < month; m++) days += daysInMonth[m];\<close>
  The table has 13 entries. A read past its end (\<open>month > 13\<close>) has no defined
  value in C++: the loop then yields \<open>None\<close>.
\<close>

function month_loop :: "int list \<Rightarrow> int \<Rightarrow> int \<Rightarrow> ulong \<Rightarrow> ulong option" where
  "month_loop tbl m month days =
     (if m < month
      then (if 0 \<le> m \<and> nat m < length tbl
            then month_loop tbl (m + 1) month (days + word_of_int (tbl ! nat m))
            else None)
      else Some days)"
  by pat_completeness auto
termination
  by (relation "measure (\<lambda>(tbl, m, month, days). nat (month - m))") auto

declare year_loop.simps [simp del] month_loop.simps [simp del]

text \<open>
  \<^verbatim>\<open>days += day - 1;
  unsigned long epoch = days * 86400UL + hour * 3600UL + minute * 60UL + second;\<close>
\<close>

definition gpsToEpoch :: "int \<Rightarrow> int \<Rightarrow> int \<Rightarrow> int \<Rightarrow> int \<Rightarrow> int \<Rightarrow> ulong option" where
  "gpsToEpoch year month day hour minute second =
     (case month_loop (daysInMonth year) 1 month (year_loop 1970 year 0) of
        None \<Rightarrow> None
      | Some days \<Rightarrow>
          (let days = days + word_of_int (day - 1)
           in Some (days * 86400 + word_of_int hour * 3600 + word_of_int minute * 60
                    + word_of_int second)))"

text \<open>
  The observable state of the TinyGPSPlus decoder (its source is not part of the
  repository): the validity flags and the fields the sketch reads.
\<close>

record gps_date =
  date_valid :: bool
  gps_year :: int
  gps_month :: int
  gps_day :: int

record gps_time =
  time_valid :: bool
  gps_hour :: int
  gps_minute :: int
  gps_second :: int

text \<open>
  \<^verbatim>\<open>if (gps.date.isValid() && gps.time.isValid()) { ... return gpsToEpoch(...); }
  return 0; // invalid\<close>
\<close>

definition getGPSEpochUTC :: "gps_date \<Rightarrow> gps_time \<Rightarrow> ulong option" where
  "getGPSEpochUTC d t =
     (if date_valid d \<and> time_valid t
      then gpsToEpoch (gps_year d) (gps_month d) (gps_day d)
             (gps_hour t) (gps_minute t) (gps_second t)
      else Some 0)"

section \<open>IEEE 754 binary64 arithmetic\<close>

text \<open>
  The coordinates are C \<open>double\<close>s. A finite double is a signed significand and a
  binary exponent, its value \<open>mant * 2 ^ expo\<close>; \<open>to_double\<close> rounds the rational
  \<open>(n / d) * 2 ^ e\<close> (with \<open>0 < d\<close>) to the nearest double, ties to the even
  significand, with 53 significant bits and the gradual underflow of the format
  (smallest exponent \<open>- 1074\<close>). The result is in normal form, so equal doubles are
  equal records. Overflow to infinity, NaN and the sign of zero are outside the model.
\<close>

record double =
  mant :: int
  expo :: int

fun bitlen :: "nat \<Rightarrow> nat" where
  "bitlen n = (if n = 0 then 0 else Suc (bitlen (n div 2)))"

declare bitlen.simps [simp del]

definition round_even_div :: "int \<Rightarrow> int \<Rightarrow> int" where
  "round_even_div n d =
     (let q = n div d; r = n mod d
      in if 2 * r < d then q
         else if d < 2 * r then q + 1
         else if even q then q else q + 1)"

text \<open>\<open>ilog2_frac n d\<close> is the integer part of the binary logarithm of \<open>n / d\<close>, for positive \<open>n\<close> and \<open>d\<close>.\<close>

definition ilog2_frac :: "int \<Rightarrow> int \<Rightarrow> int" where
  "ilog2_frac n d =
     (let k = int (bitlen (nat n)) - int (bitlen (nat d))
      in if (if 0 \<le> k then d * 2 ^ nat k \<le> n else d \<le> n * 2 ^ nat (- k))
         then k else k - 1)"

definition to_double :: "int \<Rightarrow> int \<Rightarrow> int \<Rightarrow> double" where
  "to_double n d e =
     (if n = 0 then \<lparr>mant = 0, expo = 0\<rparr>
      else
        let x = max (ilog2_frac \<bar>n\<bar> d + e - 52) (- 1074);
            m = (if x \<le> e then round_even_div (n * 2 ^ nat (e - x)) d
                 else round_even_div n (d * 2 ^ nat (x - e)))
        in if m = 0 then \<lparr>mant = 0, expo = 0\<rparr>
           else if \<bar>m\<bar> = 2 ^ 53 then \<lparr>mant = m div 2, expo = x + 1\<rparr>
           else \<lparr>mant = m, expo = x\<rparr>)"

text \<open>A decimal literal such as \<open>12.3456789\<close> is the double nearest to \<open>123456789 / 10 ^ 7\<close>.\<close>

definition double_literal :: "int \<Rightarrow> nat \<Rightarrow> double" where
  "double_literal digits places = to_double digits (10 ^ places) 0"

definition double_of_int :: "int \<Rightarrow> double" where
  "double_of_int n = to_double n 1 0"

definition double_mult :: "double \<Rightarrow> double \<Rightarrow> double" where
  "double_mult a b = to_double (mant a * mant b) 1 (expo a + expo b)"

text \<open>Division, for a divisor other than zero.\<close>

definition double_div :: "double \<Rightarrow> double \<Rightarrow> double" where
  "double_div a b = to_double (sgn (mant b) * mant a) \<bar>mant b\<bar> (expo a - expo b)"

text \<open>
  The cast \<open>(long) x\<close> discards the fraction (truncation towards zero). It is defined
  only when the truncated value is a 32-bit \<open>long\<close>; otherwise the result is \<open>None\<close>.
\<close>

definition double_to_long :: "double \<Rightarrow> int option" where
  "double_to_long a =
     (let t = (if 0 \<le> expo a then mant a * 2 ^ nat (expo a)
               else sgn (mant a) * (\<bar>mant a\<bar> div 2 ^ nat (- expo a)))
      in if - (2 ^ 31) \<le> t \<and> t < 2 ^ 31 then Some t else None)"

section \<open>Arduino and library interfaces\<close>

text \<open>
  \<open>millis()\<close> is the count of milliseconds since boot as an \<open>unsigned long\<close>: at the
  real time \<open>t\<close> (in milliseconds, unbounded) it returns \<open>t\<close> modulo \<open>2 ^ 32\<close>.
\<close>

definition millis :: "nat \<Rightarrow> ulong" where
  "millis t = of_nat t"

text \<open>\<open>String(n)\<close> of an \<open>unsigned long\<close> is its decimal numeral.\<close>

fun dec_digits :: "nat \<Rightarrow> string" where
  "dec_digits n =
     (if n < 10 then [''0123456789'' ! n]
      else dec_digits (n div 10) @ [''0123456789'' ! (n mod 10)])"

declare dec_digits.simps [simp del]

definition String_ulong :: "ulong \<Rightarrow> string" where
  "String_ulong w = dec_digits (unat w)"

text \<open>
  A value handed to \<open>JsonWriter::create\<close>: literal text, a double, an unsigned
  integer or a boolean. \<open>JIndeterminate\<close> stands for a number the C++ program computed
  from an undefined operation (a table read out of range, a cast out of range).
\<close>

datatype json_value =
  JLiteral string | JDouble double | JULong ulong | JBool bool | JIndeterminate

definition json_double :: "double option \<Rightarrow> json_value" where
  "json_double v = (case v of None \<Rightarrow> JIndeterminate | Some x \<Rightarrow> JDouble x)"

definition json_ulong :: "ulong option \<Rightarrow> json_value" where
  "json_ulong v = (case v of None \<Rightarrow> JIndeterminate | Some x \<Rightarrow> JULong x)"

text \<open>One call of \<open>Database.set<object_t>(aClient, path, json, processData, task)\<close>.\<close>

record upload =
  up_path :: string
  up_payload :: "(string \<times> json_value) list"
  up_task :: string

text \<open>The global variables the two sketches share by name.\<close>

record logger =
  lastSendTime :: ulong
  uid :: string
  databasePath :: string
  jsonData :: "(string \<times> json_value) list"

text \<open>
  What one pass of \<open>loop()\<close> observes of the Firebase session and of the clock:
  \<open>app.ready()\<close>, \<open>app.getUid()\<close>, and the real time (milliseconds since boot) at
  which the pass reads \<open>millis()\<close> for the interval test.
\<close>

record app_tick =
  app_ready :: bool
  app_uid :: string
  millis_sched :: nat

section \<open>gps\_esp.ino: the upload loop\<close>

record gps_location =
  location_valid :: bool
  lat :: double
  lng :: double

record TinyGPSPlus =
  location :: gps_location
  date :: gps_date
  time :: gps_time
  charsProcessed :: ulong

text \<open>
  A pass of the GPS sketch also observes the decoder after the serial input of this
  pass has been fed to it, and the real times of its two further \<open>millis()\<close> calls.
\<close>

record gps_tick = app_tick +
  gps :: TinyGPSPlus
  millis_key :: nat
  millis_failsafe :: nat

definition latPath :: string where "latPath = ''/latitude''"
definition lngPath :: string where "lngPath = ''/longitude''"
definition timePath :: string where "timePath = ''/timestamp''"

definition gps_sendInterval :: ulong where
  "gps_sendInterval = 60000"

text \<open>
  \<^verbatim>\<open>latitude = ((long)(latitude * 100000)) / 100000.0;\<close>
  The same statement is applied to the longitude. The \<open>int\<close> literal and the
  \<open>long\<close> are converted to \<open>double\<close> exactly; the literal \<open>100000.0\<close> is
  \<open>double_literal 1000000 1\<close>.
\<close>

definition truncate5 :: "double \<Rightarrow> double option" where
  "truncate5 x =
     (case double_to_long (double_mult x (double_of_int 100000)) of
        None \<Rightarrow> None
      | Some n \<Rightarrow> Some (double_div (double_of_int n) (double_literal 1000000 1)))"

text \<open>
  One pass of \<open>loop()\<close> of gps\_esp.ino. The result is the new globals, the upload
  dispatched in this pass (if any), and whether the pass ends in the failsafe's
  \<^verbatim>\<open>while (true);\<close>, from which \<open>loop()\<close> never returns.
\<close>

definition gps_loop :: "logger \<Rightarrow> gps_tick \<Rightarrow> logger \<times> upload option \<times> bool" where
  "gps_loop s tk =
     (let (s', sent) =
        (if app_ready tk \<and> location_valid (location (gps tk))
              \<and> date_valid (date (gps tk)) \<and> time_valid (time (gps tk))
         then
           let currentTime = millis (millis_sched tk)
           in if gps_sendInterval \<le> currentTime - lastSendTime s
              then
                let uid' = app_uid tk;
                    databasePath' = ''/UsersData/'' @ uid' @ ''/gpsLogs'';
                    latitude = lat (location (gps tk));
                    longitude = lng (location (gps tk));
                    utcEpoch = getGPSEpochUTC (date (gps tk)) (time (gps tk));
                    latitude = truncate5 latitude;
                    longitude = truncate5 longitude;
                    obj1 = (latPath, JLiteral ''0.0000000'');
                    obj2 = (lngPath, json_double longitude);
                    obj3 = (timePath, json_ulong utcEpoch);
                    jsonData' = [obj1, obj2, obj3];
                    parentPath =
                      databasePath' @ ''/'' @ String_ulong (millis (millis_key tk))
                in (s\<lparr>lastSendTime := currentTime, uid := uid',
                       databasePath := databasePath', jsonData := jsonData'\<rparr>,
                    Some \<lparr>up_path = parentPath, up_payload = jsonData',
                          up_task = ''GPS_Data''\<rparr>)
              else (s, None)
         else (s, None))
      in (s', sent, 10000 < millis (millis_failsafe tk) \<and> charsProcessed (gps tk) < 10))"

text \<open>
  The passes of \<open>loop()\<close> over a list of observations, from the globals \<open>s\<close>: what
  each executed pass dispatched. No pass follows one that ended in the failsafe.
\<close>

fun gps_run :: "logger \<Rightarrow> gps_tick list \<Rightarrow> upload option list" where
  "gps_run s [] = []"
| "gps_run s (tk # tks) =
     (case gps_loop s tk of
        (s', sent, halted) \<Rightarrow> sent # (if halted then [] else gps_run s' tks))"

text \<open>The globals as initialised at boot.\<close>

definition logger_init :: logger where
  "logger_init = \<lparr>lastSendTime = 0, uid = [], databasePath = [], jsonData = []\<rparr>"

section \<open>rtc\_btn\_smoke\_esp.ino: the upload loop\<close>

datatype pin_level = LOW | HIGH

record rtc_logger = logger +
  parentPath :: string
  timestampEpoch :: ulong

text \<open>
  A pass of the sensor sketch observes the epoch the DS3231 reports
  (\<open>rtc.now().unixtime()\<close>) and the two digital inputs.
\<close>

record rtc_tick = app_tick +
  rtc_unixtime :: ulong
  do_pin :: pin_level
  emer_pin :: pin_level

definition rtc_sendInterval :: ulong where
  "rtc_sendInterval = 6000"

text \<open>\<^verbatim>\<open>DateTime now = rtc.now(); return (unsigned long)now.unixtime();\<close>\<close>

definition getEpochFromRTC :: "rtc_tick \<Rightarrow> ulong" where
  "getEpochFromRTC tk = rtc_unixtime tk"

text \<open>
  One pass of \<open>loop()\<close> of rtc\_btn\_smoke\_esp.ino: the new globals and the upload
  dispatched in this pass (if any). The pass always returns.
\<close>

definition rtc_loop :: "rtc_logger \<Rightarrow> rtc_tick \<Rightarrow> rtc_logger \<times> upload option" where
  "rtc_loop s tk =
     (if app_ready tk
      then
        let nowMillis = millis (millis_sched tk)
        in if rtc_sendInterval \<le> nowMillis - lastSendTime s
           then
             let uid' = app_uid tk;
                 databasePath' = ''/UsersData/'' @ uid' @ ''/readings'';
                 timestampEpoch' = getEpochFromRTC tk;
                 smoking = (do_pin tk = LOW);
                 emergency_press = (emer_pin tk = LOW);
                 parentPath' = databasePath' @ ''/'' @ String_ulong timestampEpoch';
                 obj1 = (''/smoking'', JBool smoking);
                 obj2 = (''/timestamp'', JULong timestampEpoch');
                 obj3 = (''/emergency_press'', JBool emergency_press);
                 jsonData' = [obj1, obj2, obj3]
             in (s\<lparr>lastSendTime := nowMillis, uid := uid',
                    databasePath := databasePath', jsonData := jsonData',
                    parentPath := parentPath', timestampEpoch := timestampEpoch'\<rparr>,
                 Some \<lparr>up_path = parentPath', up_payload = jsonData',
                       up_task = ''RTDB_Send_Data''\<rparr>)
           else (s, None)
      else (s, None))"

text \<open>The passes of \<open>loop()\<close> over a list of observations: what each pass dispatched.\<close>

fun rtc_run :: "rtc_logger \<Rightarrow> rtc_tick list \<Rightarrow> upload option list" where
  "rtc_run s [] = []"
| "rtc_run s (tk # tks) =
     (case rtc_loop s tk of (s', sent) \<Rightarrow> sent # rtc_run s' tks)"

definition rtc_logger_init :: rtc_logger where
  "rtc_logger_init =
     \<lparr>lastSendTime = 0, uid = [], databasePath = [], jsonData = [],
      parentPath = [], timestampEpoch = 0\<rparr>"

section \<open>rtc\_btn\_smoke\_esp.ino: network time at boot\<close>

text \<open>
  The DS3231 behind RTClib (not part of the repository), as far as \<open>setup()\<close> uses
  it: the epoch it was last set to. \<open>rtc.adjust(DateTime(e))\<close> overwrites it.
\<close>

record rtc_chip =
  rtc_epoch :: ulong

definition rtc_adjust :: "ulong \<Rightarrow> rtc_chip \<Rightarrow> rtc_chip" where
  "rtc_adjust e rtc = rtc\<lparr>rtc_epoch := e\<rparr>"

definition println :: "string \<Rightarrow> string" where
  "println s = s @ [CHR 0x0D, CHR 0x0A]"

text \<open>
  The type \<open>time_t\<close> is declared by the toolchain, not by the sketch. Where it is 64
  bits wide (\<open>wide\<close>), \<open>now < 1600000000UL\<close> converts the constant and compares
  signed numbers. Where it is a 32-bit \<open>long\<close>, both operands are converted to
  \<open>unsigned long\<close> and the comparison is unsigned, so a negative reading counts as a
  large one. \<open>time_reached\<close> is the test \<open>now >= 1600000000UL\<close> after the loop.
\<close>

definition time_below :: "bool \<Rightarrow> int \<Rightarrow> bool" where
  "time_below wide now \<longleftrightarrow>
     (if wide then now < 1600000000 else (word_of_int now :: ulong) < 1600000000)"

definition time_reached :: "bool \<Rightarrow> int \<Rightarrow> bool" where
  "time_reached wide now \<longleftrightarrow>
     (if wide then 1600000000 \<le> now else 1600000000 \<le> (word_of_int now :: ulong))"

text \<open>
  The clock of the boot sequence: \<open>t\<close> is the real time in milliseconds at which the
  loop condition reads \<open>millis()\<close>. One iteration (the print, \<open>delay(500)\<close> and the
  call of \<open>time\<close>) lasts \<open>500 + lag t\<close> ms, where \<open>lag t\<close> is whatever the iteration
  begun at \<open>t\<close> takes beyond the 500 ms of the delay; \<open>time_at t'\<close> is the value
  \<open>time(nullptr)\<close> has returned when the condition is next read at \<open>t'\<close>.
  \<^verbatim>\<open>while (now < 1600000000UL && (millis() - startMillis) < 10000UL) {
    Serial.print('.'); delay(500); now = time(nullptr); }\<close>
  Nothing in the loop bounds the number of iterations for an arbitrary \<open>lag\<close> (the
  32-bit difference can come back below 10000), so the result is an option: \<open>None\<close>
  when the loop never ends.
\<close>

partial_function (option) ntp_wait ::
  "bool \<Rightarrow> (nat \<Rightarrow> int) \<Rightarrow> (nat \<Rightarrow> nat) \<Rightarrow> ulong \<Rightarrow> nat \<Rightarrow> int \<Rightarrow> string
     \<Rightarrow> (nat \<times> int \<times> string) option" where
  "ntp_wait wide time_at lag startMillis t now out =
     (if time_below wide now \<and> millis t - startMillis < 10000
      then ntp_wait wide time_at lag startMillis (t + 500 + lag t)
             (time_at (t + 500 + lag t)) (out @ ''.'')
      else Some (t, now, out))"

text \<open>
  Lines 96 to 120 of \<open>setup()\<close>, entered at the real time \<open>t0\<close>: the new state of
  the clock chip, the serial output, and the real time at which the wait has ended.
\<close>

definition setup_ntp ::
  "bool \<Rightarrow> (nat \<Rightarrow> int) \<Rightarrow> (nat \<Rightarrow> nat) \<Rightarrow> nat \<Rightarrow> rtc_chip
     \<Rightarrow> (rtc_chip \<times> string \<times> nat) option" where
  "setup_ntp wide time_at lag t0 rtc =
     (let out = println ''Syncing time with NTP (UTC)...'';
          startMillis = millis t0;
          now = time_at t0
      in case ntp_wait wide time_at lag startMillis t0 now out of
           None \<Rightarrow> None
         | Some (t, now, out) \<Rightarrow>
             (let out = out @ println []
              in if time_reached wide now
                 then Some (rtc_adjust (word_of_int now) rtc,
                       out @ ''NTP epoch (UTC): '' @ println (String_ulong (word_of_int now))
                           @ println ''RTC updated from NTP (UTC).'',
                       t)
                 else Some (rtc,
                       out @ println ''Failed to get NTP time; RTC not updated.'',
                       t)))"

section \<open>Auxiliary notions for the properties\<close>

text \<open>The number of uploads in the record of a run.\<close>

definition dispatch_count :: "upload option list \<Rightarrow> nat" where
  "dispatch_count r = length (filter (\<lambda>u. u \<noteq> None) r)"

text \<open>
  The interval gate both loops share, on its own: a pass is (gate open, real time,
  pass ends in the failsafe); the result tells which passes dispatch.
\<close>

fun sched_run :: "ulong \<Rightarrow> ulong \<Rightarrow> (bool \<times> nat \<times> bool) list \<Rightarrow> bool list" where
  "sched_run I lst [] = []"
| "sched_run I lst ((g, t, h) # xs) =
     (if g \<and> I \<le> millis t - lst
      then True # (if h then [] else sched_run I (millis t) xs)
      else False # (if h then [] else sched_run I lst xs))"

definition gps_pass :: "gps_tick \<Rightarrow> bool \<times> nat \<times> bool" where
  "gps_pass tk =
     (app_ready tk \<and> location_valid (location (gps tk))
        \<and> date_valid (date (gps tk)) \<and> time_valid (time (gps tk)),
      millis_sched tk,
      10000 < millis (millis_failsafe tk) \<and> charsProcessed (gps tk) < 10)"

definition rtc_pass :: "rtc_tick \<Rightarrow> bool \<times> nat \<times> bool" where
  "rtc_pass tk = (app_ready tk, millis_sched tk, False)"

text \<open>The real time at which the loop of \<open>setup()\<close> reads its condition for the \<open>i\<close>-th time.\<close>

primrec poll_time :: "(nat \<Rightarrow> nat) \<Rightarrow> nat \<Rightarrow> nat \<Rightarrow> nat" where
  "poll_time lag t0 0 = t0"
| "poll_time lag t0 (Suc i) = poll_time lag t0 i + 500 + lag (poll_time lag t0 i)"

text \<open>The days of the \<open>n\<close> years from 1970 on.\<close>

primrec ydays :: "nat \<Rightarrow> nat" where
  "ydays 0 = 0"
| "ydays (Suc n) = ydays n + (if isLeapYear (1970 + int n) then 366 else 365)"

text \<open>Observations used to exercise the theorems: a fix on 2024-03-01T00:00:00.\<close>

definition example_fix :: TinyGPSPlus where
  "example_fix =
     \<lparr>location = \<lparr>location_valid = True, lat = double_literal 123456789 7,
                  lng = double_literal 771234567 7\<rparr>,
      date = \<lparr>date_valid = True, gps_year = 2024, gps_month = 3, gps_day = 1\<rparr>,
      time = \<lparr>time_valid = True, gps_hour = 0, gps_minute = 0, gps_second = 0\<rparr>,
      charsProcessed = 500\<rparr>"

definition example_tick :: "nat \<Rightarrow> gps_tick" where
  "example_tick t =
     \<lparr>app_ready = True, app_uid = ''u1'', millis_sched = t,
      gps = example_fix, millis_key = t, millis_failsafe = t\<rparr>"

definition example_rtc_tick :: "nat \<Rightarrow> ulong \<Rightarrow> rtc_tick" where
  "example_rtc_tick t e =
     \<lparr>app_ready = True, app_uid = ''u1'', millis_sched = t,
      rtc_unixtime = e, do_pin = HIGH, emer_pin = LOW\<rparr>"

section \<open>Properties of the calendar conversion\<close>

lemmas calendar_eval =
  gpsToEpoch_def daysInMonth_def isLeapYear_def signed_modulo_int_def
  year_loop.simps month_loop.simps

text \<open>
  Claim C2. The conversion meets the two test vectors of the specification:
  1970-01-01T00:00:00 is epoch 0, and 2024-03-01T00:00:00 is epoch 1709251200, which
  counts the 29 days of February 2024.
\<close>

theorem gpsToEpoch_test_vectors:
  "gpsToEpoch 1970 1 1 0 0 0 = Some 0 \<and> gpsToEpoch 2024 3 1 0 0 0 = Some 1709251200"
  by (simp add: calendar_eval)

text \<open>
  Claim C10. The sentinel is ambiguous: a valid fix at 1970-01-01T00:00:00 makes
  \<open>getGPSEpochUTC\<close> return 0, the very value it returns when the date is not
  valid, so the result alone does not tell the two apart.
\<close>

theorem sentinel_ambiguous:
  "getGPSEpochUTC \<lparr>date_valid = True, gps_year = 1970, gps_month = 1, gps_day = 1\<rparr>
                  \<lparr>time_valid = True, gps_hour = 0, gps_minute = 0, gps_second = 0\<rparr> = Some 0
   \<and> getGPSEpochUTC \<lparr>date_valid = False, gps_year = 1970, gps_month = 1, gps_day = 1\<rparr>
                  \<lparr>time_valid = True, gps_hour = 0, gps_minute = 0, gps_second = 0\<rparr> = Some 0"
  by (simp add: getGPSEpochUTC_def calendar_eval)

subsection \<open>Order of the epoch within one day\<close>

lemma year_loop_snoc:
  "y \<le> year \<Longrightarrow>
   year_loop y (year + 1) acc = year_loop y year acc + (if isLeapYear year then 366 else 365)"
proof (induction y year acc rule: year_loop.induct)
  case (1 y year days)
  show ?case
  proof (cases "y < year")
    case True
    then have "year_loop y (year + 1) days
                 = year_loop (y + 1) (year + 1) (days + (if isLeapYear y then 366 else 365))"
      by (subst year_loop.simps) simp
    also have "\<dots> = year_loop (y + 1) year (days + (if isLeapYear y then 366 else 365))
                       + (if isLeapYear year then 366 else 365)"
      using "1.IH" [OF True] True by simp
    also have "year_loop (y + 1) year (days + (if isLeapYear y then 366 else 365))
                 = year_loop y year days"
      using True by (subst (2) year_loop.simps) simp
    finally show ?thesis .
  next
    case False
    with "1.prems" have eq: "y = year" by simp
    have "year_loop year (year + 1) days
            = year_loop (year + 1) (year + 1) (days + (if isLeapYear year then 366 else 365))"
      by (subst year_loop.simps) simp
    also have "\<dots> = days + (if isLeapYear year then 366 else 365)"
      by (subst year_loop.simps) simp
    finally have A: "year_loop year (year + 1) days
                       = days + (if isLeapYear year then 366 else 365)" .
    have B: "year_loop year year days = days"
      by (subst year_loop.simps) simp
    show ?thesis unfolding eq A B ..
  qed
qed

lemma year_loop_ydays: "year_loop 1970 (1970 + int n) 0 = of_nat (ydays n)"
proof (induction n)
  case 0
  show ?case by (subst year_loop.simps) simp
next
  case (Suc n)
  have "year_loop 1970 (1970 + int (Suc n)) 0 = year_loop 1970 ((1970 + int n) + 1) 0"
    by (simp add: add.assoc)
  also have "\<dots> = year_loop 1970 (1970 + int n) 0
                     + (if isLeapYear (1970 + int n) then 366 else 365)"
    by (rule year_loop_snoc) simp
  finally show ?case using Suc by simp
qed

lemma ydays_le: "ydays n \<le> 366 * n"
  by (induction n) auto

lemma ydays_mono: "ydays n + 365 * k \<le> ydays (n + k)"
  by (induction k) auto

lemma ydays_136: "ydays 136 = 49673"
proof -
  have "(of_nat (ydays 136) :: ulong) = year_loop 1970 (1970 + int 136) 0"
    by (simp only: year_loop_ydays)
  also have "\<dots> = 49673"
    by (simp add: year_loop.simps isLeapYear_def signed_modulo_int_def)
  finally have "unat (of_nat (ydays 136) :: ulong) = 49673" by simp
  moreover have "ydays 136 < 2 ^ 32" using ydays_le [of 136] by simp
  ultimately show ?thesis by (simp add: unat_of_nat)
qed

lemma month_loop_bound:
  assumes "1 \<le> month" "month \<le> 12"
  shows "case month_loop (daysInMonth y) 1 month d of
           None \<Rightarrow> False
         | Some r \<Rightarrow> unat (r - d) + 31 \<le> (if isLeapYear y then 366 else 365)
                     \<and> (month = 1 \<longrightarrow> r = d) \<and> (month = 2 \<longrightarrow> r = d + 31)"
proof -
  from assms have "month \<in> {1, 2, 3, 4, 5, 6, 7, 8, 9, 10, 11, 12}" by simp presburger
  then show ?thesis
    by (elim insertE emptyE; simp add: month_loop.simps daysInMonth_def)
qed

lemma gpsToEpoch_nat:
  assumes "1970 \<le> year" "1 \<le> month" "month \<le> 12" "1 \<le> day" "day \<le> 31"
    and before: "year < 2106 \<or> (year = 2106 \<and> (month < 2 \<or> (month = 2 \<and> day < 7)))"
  shows "\<exists>N. N \<le> 49709 \<and>
           (\<forall>h mi s. 0 \<le> h \<longrightarrow> 0 \<le> mi \<longrightarrow> 0 \<le> s \<longrightarrow>
              gpsToEpoch year month day h mi s
                = Some (of_nat (N * 86400 + nat h * 3600 + nat mi * 60 + nat s)))"
proof -
  define n where "n = nat (year - 1970)"
  have year: "year = 1970 + int n" using assms(1) by (simp add: n_def)
  define d :: ulong where "d = of_nat (ydays n)"
  have yl: "year_loop 1970 year 0 = d" by (simp add: year d_def year_loop_ydays)
  obtain r where ml: "month_loop (daysInMonth year) 1 month d = Some r"
    and bnd: "unat (r - d) + 31 \<le> (if isLeapYear year then 366 else 365)"
    and m1: "month = 1 \<longrightarrow> r = d" and m2: "month = 2 \<longrightarrow> r = d + 31"
    using month_loop_bound [OF assms(2,3), where y = year and d = d] by (auto split: option.splits)
  define k where "k = unat (r - d)"
  have r: "r = d + of_nat k" by (simp add: k_def)
  define N where "N = ydays n + k + nat (day - 1)"
  have day: "word_of_int (day - 1) = (of_nat (nat (day - 1)) :: ulong)"
    using assms(4) by simp
  have days: "r + word_of_int (day - 1) = (of_nat N :: ulong)"
    by (simp only: day r d_def N_def of_nat_add)
  have ep: "gpsToEpoch year month day h mi s
              = Some (of_nat (N * 86400 + nat h * 3600 + nat mi * 60 + nat s))"
    if "0 \<le> h" "0 \<le> mi" "0 \<le> s" for h mi s
  proof -
    have w: "word_of_int h = (of_nat (nat h) :: ulong)"
      "word_of_int mi = (of_nat (nat mi) :: ulong)"
      "word_of_int s = (of_nat (nat s) :: ulong)"
      using that by simp_all
    have "gpsToEpoch year month day h mi s
            = Some ((r + word_of_int (day - 1)) * 86400 + word_of_int h * 3600
                    + word_of_int mi * 60 + word_of_int s)"
      by (simp add: gpsToEpoch_def yl ml)
    also have "\<dots> = Some (of_nat (N * 86400 + nat h * 3600 + nat mi * 60 + nat s))"
      by (simp only: days w) simp
    finally show ?thesis .
  qed
  have "N \<le> 49709"
  proof (cases "year < 2106")
    case True
    then have n: "n \<le> 135" by (simp add: n_def)
    have "ydays (Suc n) + 365 * (135 - n) \<le> ydays (Suc n + (135 - n))" by (rule ydays_mono)
    then have "ydays (Suc n) \<le> 49673" using n by (simp add: ydays_136)
    moreover have "k + 31 \<le> (if isLeapYear (1970 + int n) then 366 else 365)"
      using bnd by (simp add: k_def year)
    moreover have "nat (day - 1) \<le> 30" using assms(5) by simp
    ultimately show ?thesis by (simp add: N_def split: if_splits)
  next
    case False
    with before have y: "year = 2106" and md: "month < 2 \<or> (month = 2 \<and> day < 7)" by auto
    then have n: "n = 136" by (simp add: n_def)
    from md show ?thesis
    proof
      assume "month < 2"
      with assms(2) have "month = 1" by simp
      with m1 have "k = 0" by (simp add: k_def)
      then show ?thesis using assms(5) by (simp add: N_def n ydays_136)
    next
      assume a: "month = 2 \<and> day < 7"
      with m2 have "k = 31" by (simp add: k_def)
      moreover have "nat (day - 1) \<le> 5" using a by auto
      ultimately show ?thesis by (simp add: N_def n ydays_136)
    qed
  qed
  with ep show ?thesis by blast
qed

text \<open>
  Claim C9, as amended. For a date from 1970-01-01 up to 2106-02-06 (month 1 to 12,
  day 1 to 31) and two times of day with hour below 24 and minute and second below
  60, the second later than the first in the order by hour, then minute, then second,
  \<open>gpsToEpoch\<close> is defined on both and its value on the later time is strictly
  greater. From 2106-02-07 on the 32-bit result wraps around and the order fails.
\<close>

theorem time_of_day_strictly_increases:
  assumes "1970 \<le> year" "1 \<le> month" "month \<le> 12" "1 \<le> day" "day \<le> 31"
    and "year < 2106 \<or> (year = 2106 \<and> (month < 2 \<or> (month = 2 \<and> day < 7)))"
    and "0 \<le> h1" "h1 < 24" "0 \<le> m1" "m1 < 60" "0 \<le> s1" "s1 < 60"
    and "0 \<le> h2" "h2 < 24" "0 \<le> m2" "m2 < 60" "0 \<le> s2" "s2 < 60"
    and "h1 < h2 \<or> (h1 = h2 \<and> (m1 < m2 \<or> (m1 = m2 \<and> s1 < s2)))"
  shows "\<exists>a b. gpsToEpoch year month day h1 m1 s1 = Some a
               \<and> gpsToEpoch year month day h2 m2 s2 = Some b \<and> a < b"
proof -
  obtain N where N: "N \<le> 49709"
    and ep: "\<And>h mi s. 0 \<le> h \<Longrightarrow> 0 \<le> mi \<Longrightarrow> 0 \<le> s \<Longrightarrow>
              gpsToEpoch year month day h mi s
                = Some (of_nat (N * 86400 + nat h * 3600 + nat mi * 60 + nat s))"
    using gpsToEpoch_nat [OF assms(1-6)] by blast
  define T1 where "T1 = nat h1 * 3600 + nat m1 * 60 + nat s1"
  define T2 where "T2 = nat h2 * 3600 + nat m2 * 60 + nat s2"
  have lt: "T1 < T2" using assms(7-19) unfolding T1_def T2_def by auto
  have T2: "T2 \<le> 86399" using assms(13-18) unfolding T2_def by auto
  define a :: ulong where "a = of_nat (N * 86400 + T1)"
  define b :: ulong where "b = of_nat (N * 86400 + T2)"
  have ea: "gpsToEpoch year month day h1 m1 s1 = Some a"
    using ep [OF assms(7,9,11)] by (simp add: a_def T1_def add.assoc)
  have eb: "gpsToEpoch year month day h2 m2 s2 = Some b"
    using ep [OF assms(13,15,17)] by (simp add: b_def T2_def add.assoc)
  have small: "unat (of_nat X :: ulong) = X" if "X < 2 ^ 32" for X
    using that by (simp add: unat_of_nat)
  have bound: "N * 86400 + T2 < 2 ^ 32" using N T2 by simp
  have ub: "unat b = N * 86400 + T2"
    unfolding b_def using bound by (rule small)
  have ua: "unat a = N * 86400 + T1"
    unfolding a_def using bound lt by (intro small) simp
  have "a < b" using lt by (simp add: word_less_nat_alt ua ub)
  with ea eb show ?thesis by blast
qed

theorem time_of_day_strictly_increases_witness:
  "(1970 :: int) \<le> 2024 \<and> (2024 :: int) < 2106
   \<and> (\<exists>a b. gpsToEpoch 2024 3 1 10 20 30 = Some a
            \<and> gpsToEpoch 2024 3 1 10 20 31 = Some b \<and> a < b)"
  using time_of_day_strictly_increases [of 2024 3 1 10 20 30 10 20 31] by simp

text \<open>
  On 2106-02-07 the epoch passes \<open>2 ^ 32\<close>: the tuple 06:28:15 is mapped to the
  largest 32-bit value and the later tuple 06:28:16 to 0.
\<close>

theorem time_of_day_wraps_in_2106:
  "gpsToEpoch 2106 2 7 6 28 15 = Some 4294967295
   \<and> gpsToEpoch 2106 2 7 6 28 16 = Some 0
   \<and> \<not> (4294967295 :: ulong) < 0"
  by (simp add: calendar_eval)

section \<open>Properties of the coordinate truncation\<close>

lemmas double_eval =
  truncate5_def double_literal_def double_of_int_def double_mult_def double_div_def
  double_to_long_def to_double_def ilog2_frac_def round_even_div_def bitlen.simps Let_def

lemma truncate5_example:
  "truncate5 (double_literal 123456789 7) = Some \<lparr>mant = 6949994351454889, expo = - 49\<rparr>"
  by (simp add: double_eval)

lemma literal_12_34567:
  "double_literal 1234567 5 = \<lparr>mant = 6949994351454889, expo = - 49\<rparr>"
  by (simp add: double_eval)

lemma literal_12_34568:
  "double_literal 1234568 5 = \<lparr>mant = 6949999980954423, expo = - 49\<rparr>"
  by (simp add: double_eval)

text \<open>
  Claim C7. The truncation is towards zero and does not round: for the double
  12.3456789 the product with 100000 is cast to the integer 1234567, and the quotient
  by 100000.0 is the double 12.34567, not the double 12.34568. The negative input
  - 12.3456789 yields - 12.34567 likewise.
\<close>

theorem truncation_not_rounding:
  "double_to_long (double_mult (double_literal 123456789 7) (double_of_int 100000))
     = Some 1234567
   \<and> truncate5 (double_literal 123456789 7) = Some (double_literal 1234567 5)
   \<and> truncate5 (double_literal 123456789 7) \<noteq> Some (double_literal 1234568 5)
   \<and> truncate5 (double_literal (- 123456789) 7) = Some (double_literal (- 1234567) 5)"
proof -
  have "double_to_long (double_mult (double_literal 123456789 7) (double_of_int 100000))
          = Some 1234567"
    by (simp add: double_eval)
  moreover have "truncate5 (double_literal (- 123456789) 7)
                   = Some (double_literal (- 1234567) 5)"
    by (simp add: double_eval)
  ultimately show ?thesis
    by (simp add: truncate5_example literal_12_34567 literal_12_34568)
qed

section \<open>Properties of the upload loops\<close>

text \<open>
  Claim C5. When the date or the time of the decoder is not valid,
  \<open>getGPSEpochUTC\<close> returns the sentinel 0, and the pass of \<open>loop()\<close> dispatches
  nothing and leaves the globals as they were.
\<close>

theorem clock_unavailable_suppressed:
  assumes "\<not> date_valid (date (gps tk)) \<or> \<not> time_valid (time (gps tk))"
  shows "getGPSEpochUTC (date (gps tk)) (time (gps tk)) = Some 0
         \<and> fst (snd (gps_loop s tk)) = None
         \<and> fst (gps_loop s tk) = s"
  using assms by (auto simp add: getGPSEpochUTC_def gps_loop_def)

theorem clock_unavailable_suppressed_witness:
  "\<not> date_valid (date (gps ((example_tick 60000)
        \<lparr>gps := example_fix\<lparr>date := (date example_fix)\<lparr>date_valid := False\<rparr>\<rparr>\<rparr>)))
   \<and> getGPSEpochUTC
        (date (gps ((example_tick 60000)
           \<lparr>gps := example_fix\<lparr>date := (date example_fix)\<lparr>date_valid := False\<rparr>\<rparr>\<rparr>)))
        (time (gps ((example_tick 60000)
           \<lparr>gps := example_fix\<lparr>date := (date example_fix)\<lparr>date_valid := False\<rparr>\<rparr>\<rparr>)))
      = Some 0
   \<and> fst (snd (gps_loop logger_init ((example_tick 60000)
        \<lparr>gps := example_fix\<lparr>date := (date example_fix)\<lparr>date_valid := False\<rparr>\<rparr>\<rparr>))) = None"
proof -
  let ?tk = "(example_tick 60000)
        \<lparr>gps := example_fix\<lparr>date := (date example_fix)\<lparr>date_valid := False\<rparr>\<rparr>\<rparr>"
  have h: "\<not> date_valid (date (gps ?tk))" by simp
  then have "\<not> date_valid (date (gps ?tk)) \<or> \<not> time_valid (time (gps ?tk))" by (rule disjI1)
  from clock_unavailable_suppressed [OF this, of logger_init] h
  show ?thesis by (simp only: simp_thms)
qed

subsection \<open>The interval gate\<close>

lemma gps_run_sched:
  "map (\<lambda>u. u \<noteq> None) (gps_run s tks)
     = sched_run gps_sendInterval (lastSendTime s) (map gps_pass tks)"
  by (induction tks arbitrary: s) (auto simp add: gps_loop_def gps_pass_def Let_def)

lemma rtc_run_sched:
  "map (\<lambda>u. u \<noteq> None) (rtc_run s tks)
     = sched_run rtc_sendInterval (lastSendTime s) (map rtc_pass tks)"
  by (induction tks arbitrary: s) (auto simp add: rtc_loop_def rtc_pass_def Let_def)

lemma gps_run_length: "length (gps_run s tks) \<le> length tks"
  by (induction tks arbitrary: s) (auto split: prod.splits)

lemma rtc_run_length: "length (rtc_run s tks) = length tks"
  by (induction tks arbitrary: s) (auto split: prod.splits)

lemma millis_diff: "t0 \<le> t \<Longrightarrow> unat (millis t - millis t0) = (t - t0) mod 2 ^ 32"
proof -
  assume "t0 \<le> t"
  then have "millis t - millis t0 = (of_nat (t - t0) :: ulong)"
    by (simp add: millis_def)
  then show ?thesis by (simp add: unat_of_nat)
qed

lemma millis_gap:
  assumes "t0 \<le> t" "I \<le> millis t - millis t0"
  shows "t0 + unat I \<le> t"
proof -
  have "unat I \<le> (t - t0) mod 2 ^ 32"
    using assms by (simp add: word_le_nat_alt millis_diff)
  also have "\<dots> \<le> t - t0" by simp
  finally show ?thesis using assms(1) by simp
qed

lemma millis_early:
  assumes "t0 \<le> t" "t < t0 + unat I"
  shows "\<not> I \<le> millis t - millis t0"
proof -
  have "t - t0 < unat I" using assms by simp
  moreover have "unat I < 2 ^ 32" using unsigned_less [of I] by simp
  ultimately have "(t - t0) mod 2 ^ 32 < unat I" by simp
  then show ?thesis using assms(1) by (simp add: word_le_nat_alt millis_diff)
qed

lemma millis_due:
  assumes "t0 + unat I \<le> t" "t < t0 + 2 ^ 32"
  shows "I \<le> millis t - millis t0"
proof -
  have "t0 \<le> t" using assms by simp
  moreover have "(t - t0) mod 2 ^ 32 = t - t0" using assms by simp
  ultimately show ?thesis using assms(1) by (simp add: word_le_nat_alt millis_diff)
qed

lemma sched_after:
  assumes "sorted (map (\<lambda>x. fst (snd x)) xs)"
    and "\<forall>x\<in>set xs. t0 \<le> fst (snd x)"
    and "i < length (sched_run I (millis t0) xs)"
    and "sched_run I (millis t0) xs ! i"
  shows "t0 + unat I \<le> fst (snd (xs ! i))"
  using assms
proof (induction xs arbitrary: t0 i)
  case Nil
  then show ?case by simp
next
  case (Cons x xs)
  obtain g t h where x: "x = (g, t, h)" by (cases x)
  have t0: "t0 \<le> t" using Cons.prems(2) x by simp
  have srt: "sorted (map (\<lambda>x. fst (snd x)) xs)" using Cons.prems(1) by simp
  show ?case
  proof (cases "g \<and> I \<le> millis t - millis t0")
    case True
    then have gap: "t0 + unat I \<le> t" using t0 by (simp add: millis_gap)
    show ?thesis
    proof (cases i)
      case 0
      then show ?thesis using gap x by simp
    next
      case (Suc k)
      with Cons.prems(3,4) True x have
        k: "k < length (sched_run I (millis t) xs)" "sched_run I (millis t) xs ! k"
        by (auto split: if_splits)
      have later: "\<forall>y\<in>set xs. t \<le> fst (snd y)" using Cons.prems(1) x by simp
      from Cons.IH [OF srt later k] show ?thesis using Suc t0 by simp
    qed
  next
    case False
    show ?thesis
    proof (cases i)
      case 0
      then show ?thesis using Cons.prems(4) False x by simp
    next
      case (Suc k)
      with Cons.prems(3,4) False x have
        k: "k < length (sched_run I (millis t0) xs)" "sched_run I (millis t0) xs ! k"
        by (auto split: if_splits)
      have "\<forall>y\<in>set xs. t0 \<le> fst (snd y)" using Cons.prems(2) by simp
      from Cons.IH [OF srt this k] show ?thesis using Suc by simp
    qed
  qed
qed

lemma sched_spacing:
  assumes "sorted (map (\<lambda>x. fst (snd x)) xs)"
    and "i < j" and "j < length (sched_run I lst xs)"
    and "sched_run I lst xs ! i" and "sched_run I lst xs ! j"
  shows "fst (snd (xs ! i)) + unat I \<le> fst (snd (xs ! j))"
  using assms
proof (induction xs arbitrary: lst i j)
  case Nil
  then show ?case by simp
next
  case (Cons x xs)
  obtain g t h where x: "x = (g, t, h)" by (cases x)
  obtain j' where j: "j = Suc j'" using Cons.prems(2) by (cases j) auto
  have srt: "sorted (map (\<lambda>x. fst (snd x)) xs)" using Cons.prems(1) by simp
  have later: "\<forall>y\<in>set xs. t \<le> fst (snd y)" using Cons.prems(1) x by simp
  show ?case
  proof (cases i)
    case 0
    with Cons.prems(3,4,5) x j have
      k: "j' < length (sched_run I (millis t) xs)" "sched_run I (millis t) xs ! j'"
      by (auto split: if_splits)
    from sched_after [OF srt later k] show ?thesis using 0 j x by simp
  next
    case (Suc i')
    with Cons.prems(2,3,4,5) x j obtain lst' where
      "i' < j'" "j' < length (sched_run I lst' xs)"
      "sched_run I lst' xs ! i'" "sched_run I lst' xs ! j'"
      by (auto split: if_splits)
    from Cons.IH [OF srt this] show ?thesis using Suc j by simp
  qed
qed

lemma sched_quiet:
  assumes "\<forall>x\<in>set xs. t \<le> fst (snd x) \<and> fst (snd x) < t + unat I"
  shows "True \<notin> set (sched_run I (millis t) xs)"
  using assms
proof (induction xs)
  case Nil
  then show ?case by simp
next
  case (Cons x xs)
  obtain g t' h where x: "x = (g, t', h)" by (cases x)
  have "\<not> I \<le> millis t' - millis t"
    using Cons.prems x by (simp add: millis_early)
  then show ?case using Cons x by simp
qed

lemma dispatch_count_map:
  "dispatch_count r = length (filter (\<lambda>b. b) (map (\<lambda>u. u \<noteq> None) r))"
  by (simp add: dispatch_count_def filter_map comp_def)

lemma no_True_count: "True \<notin> set bs \<Longrightarrow> length (filter (\<lambda>b. b) bs) = 0"
  by (induction bs) auto

lemma sched_catch_up:
  assumes "t0 + unat I \<le> t" and "t < t0 + 2 ^ 32" and g
    and "\<forall>x\<in>set xs. t \<le> fst (snd x) \<and> fst (snd x) < t + unat I"
  shows "hd (sched_run I (millis t0) ((g, t, h) # xs))
         \<and> length (filter (\<lambda>b. b) (sched_run I (millis t0) ((g, t, h) # xs))) = 1"
proof -
  have due: "I \<le> millis t - millis t0" using assms(1,2) by (rule millis_due)
  have "length (filter (\<lambda>b. b) (sched_run I (millis t) xs)) = 0"
    using assms(4) by (intro no_True_count sched_quiet)
  then show ?thesis using due assms(3) by simp
qed

subsection \<open>Dispatches of the two loops\<close>

lemma gps_not_ready: "\<not> app_ready tk \<Longrightarrow> fst (snd (gps_loop s tk)) = None \<and> fst (gps_loop s tk) = s"
  by (simp add: gps_loop_def)

lemma gps_run_not_ready:
  "\<forall>tk\<in>set tks. \<not> app_ready tk \<Longrightarrow> dispatch_count (gps_run s tks) = 0"
proof (induction tks arbitrary: s)
  case Nil
  then show ?case by (simp add: dispatch_count_def)
next
  case (Cons tk tks)
  then have "\<not> app_ready tk" by simp
  then have "fst (snd (gps_loop s tk)) = None" by (simp add: gps_not_ready)
  moreover have "\<And>s'. dispatch_count (gps_run s' tks) = 0" using Cons by simp
  ultimately show ?case
    by (auto simp add: dispatch_count_def split: prod.splits)
qed

lemma rtc_run_not_ready:
  "\<forall>tk\<in>set tks. \<not> app_ready tk \<Longrightarrow> dispatch_count (rtc_run s tks) = 0"
proof (induction tks arbitrary: s)
  case Nil
  then show ?case by (simp add: dispatch_count_def)
next
  case (Cons tk tks)
  then have "\<not> app_ready tk" by simp
  then have "snd (rtc_loop s tk) = None" by (simp add: rtc_loop_def)
  moreover have "\<And>s'. dispatch_count (rtc_run s' tks) = 0" using Cons by simp
  ultimately show ?case
    by (auto simp add: dispatch_count_def split: prod.splits)
qed

text \<open>
  Claim C4. In a run in which \<open>app.ready()\<close> is false at every pass, no upload is
  dispatched, whatever the clock and the sensors do; this holds for both sketches and
  from any state of the globals.
\<close>

theorem auth_not_ready_no_dispatch:
  "(\<forall>s (tks :: gps_tick list).
      (\<forall>tk\<in>set tks. \<not> app_ready tk) \<longrightarrow> dispatch_count (gps_run s tks) = 0)
   \<and> (\<forall>s (tks :: rtc_tick list).
      (\<forall>tk\<in>set tks. \<not> app_ready tk) \<longrightarrow> dispatch_count (rtc_run s tks) = 0)"
  using gps_run_not_ready rtc_run_not_ready by blast

theorem auth_not_ready_no_dispatch_witness:
  "\<not> app_ready ((example_tick 60000)\<lparr>app_ready := False\<rparr>)
   \<and> dispatch_count (gps_run logger_init
         [(example_tick 60000)\<lparr>app_ready := False\<rparr>,
          (example_tick 130000)\<lparr>app_ready := False\<rparr>]) = 0
   \<and> \<not> app_ready ((example_rtc_tick 6000 1709251200)\<lparr>app_ready := False\<rparr>)
   \<and> dispatch_count (rtc_run rtc_logger_init
         [(example_rtc_tick 6000 1709251200)\<lparr>app_ready := False\<rparr>,
          (example_rtc_tick 13000 1709251207)\<lparr>app_ready := False\<rparr>]) = 0"
proof (intro conjI)
  have a: "\<forall>tk\<in>set [(example_tick 60000)\<lparr>app_ready := False\<rparr>,
                (example_tick 130000)\<lparr>app_ready := False\<rparr>]. \<not> app_ready tk"
    by simp
  have b: "\<forall>tk\<in>set [(example_rtc_tick 6000 1709251200)\<lparr>app_ready := False\<rparr>,
                (example_rtc_tick 13000 1709251207)\<lparr>app_ready := False\<rparr>]. \<not> app_ready tk"
    by simp
  show "\<not> app_ready ((example_tick 60000)\<lparr>app_ready := False\<rparr>)" by simp
  show "\<not> app_ready ((example_rtc_tick 6000 1709251200)\<lparr>app_ready := False\<rparr>)" by simp
  show "dispatch_count (gps_run logger_init
         [(example_tick 60000)\<lparr>app_ready := False\<rparr>,
          (example_tick 130000)\<lparr>app_ready := False\<rparr>]) = 0"
    by (rule auth_not_ready_no_dispatch [THEN conjunct1, THEN spec, THEN spec, THEN mp, OF a])
  show "dispatch_count (rtc_run rtc_logger_init
         [(example_rtc_tick 6000 1709251200)\<lparr>app_ready := False\<rparr>,
          (example_rtc_tick 13000 1709251207)\<lparr>app_ready := False\<rparr>]) = 0"
    by (rule auth_not_ready_no_dispatch [THEN conjunct2, THEN spec, THEN spec, THEN mp, OF b])
qed

lemma gps_spacing:
  fixes tks :: "gps_tick list"
  assumes "sorted (map millis_sched tks)"
    and "i < j" and "j < length (gps_run s tks)"
    and "gps_run s tks ! i \<noteq> None" and "gps_run s tks ! j \<noteq> None"
  shows "millis_sched (tks ! i) + 60000 \<le> millis_sched (tks ! j)"
proof -
  let ?r = "sched_run gps_sendInterval (lastSendTime s) (map gps_pass tks)"
  have r: "map (\<lambda>u. u \<noteq> None) (gps_run s tks) = ?r" by (rule gps_run_sched)
  have len: "length ?r = length (gps_run s tks)" using r [symmetric] by simp
  have jl: "j < length tks" using assms(3) gps_run_length [of s tks] by simp
  have srt: "sorted (map (\<lambda>x. fst (snd x)) (map gps_pass tks))"
    using assms(1) by (simp add: comp_def gps_pass_def)
  have "?r ! i" "?r ! j"
    using assms(2-5) r [symmetric] by simp_all
  from sched_spacing [OF srt assms(2) _ this] len assms(3)
  have "fst (snd (map gps_pass tks ! i)) + unat gps_sendInterval
          \<le> fst (snd (map gps_pass tks ! j))" by simp
  then show ?thesis using jl assms(2) by (simp add: gps_pass_def gps_sendInterval_def)
qed

lemma rtc_spacing:
  fixes tks :: "rtc_tick list"
  assumes "sorted (map millis_sched tks)"
    and "i < j" and "j < length (rtc_run s tks)"
    and "rtc_run s tks ! i \<noteq> None" and "rtc_run s tks ! j \<noteq> None"
  shows "millis_sched (tks ! i) + 6000 \<le> millis_sched (tks ! j)"
proof -
  let ?r = "sched_run rtc_sendInterval (lastSendTime s) (map rtc_pass tks)"
  have r: "map (\<lambda>u. u \<noteq> None) (rtc_run s tks) = ?r" by (rule rtc_run_sched)
  have len: "length ?r = length (rtc_run s tks)" using r [symmetric] by simp
  have jl: "j < length tks" using assms(3) rtc_run_length [of s tks] by simp
  have srt: "sorted (map (\<lambda>x. fst (snd x)) (map rtc_pass tks))"
    using assms(1) by (simp add: comp_def rtc_pass_def)
  have "?r ! i" "?r ! j"
    using assms(2-5) r [symmetric] by simp_all
  from sched_spacing [OF srt assms(2) _ this] len assms(3)
  have "fst (snd (map rtc_pass tks ! i)) + unat rtc_sendInterval
          \<le> fst (snd (map rtc_pass tks ! j))" by simp
  then show ?thesis using jl assms(2) by (simp add: rtc_pass_def rtc_sendInterval_def)
qed

lemma gps_catch_up:
  fixes tk :: gps_tick and tks :: "gps_tick list"
  assumes "lastSendTime s = millis t0"
    and "t0 + 60000 \<le> millis_sched tk" and "millis_sched tk < t0 + 2 ^ 32"
    and "app_ready tk" "location_valid (location (gps tk))"
        "date_valid (date (gps tk))" "time_valid (time (gps tk))"
    and "\<forall>x\<in>set tks. millis_sched tk \<le> millis_sched x
                      \<and> millis_sched x < millis_sched tk + 60000"
  shows "hd (gps_run s (tk # tks)) \<noteq> None \<and> dispatch_count (gps_run s (tk # tks)) = 1"
proof -
  obtain g t h where p: "gps_pass tk = (g, t, h)" by (cases "gps_pass tk")
  then have g: g and t: "t = millis_sched tk"
    using assms(4-7) by (auto simp add: gps_pass_def)
  have q: "\<forall>x\<in>set (map gps_pass tks). t \<le> fst (snd x) \<and> fst (snd x) < t + unat gps_sendInterval"
    using assms(8) t by (simp add: gps_pass_def gps_sendInterval_def)
  have "t0 + unat gps_sendInterval \<le> t" using assms(2) t by (simp add: gps_sendInterval_def)
  from sched_catch_up [OF this _ g q, of h] assms(3) t
  have c: "hd (sched_run gps_sendInterval (millis t0) ((g, t, h) # map gps_pass tks))"
     "length (filter (\<lambda>b. b) (sched_run gps_sendInterval (millis t0) ((g, t, h) # map gps_pass tks))) = 1"
    by simp_all
  have r: "map (\<lambda>u. u \<noteq> None) (gps_run s (tk # tks))
             = sched_run gps_sendInterval (millis t0) ((g, t, h) # map gps_pass tks)"
    using gps_run_sched [of s "tk # tks"] assms(1) p by simp
  have ne: "gps_run s (tk # tks) \<noteq> []" by (simp split: prod.splits)
  have "hd (map (\<lambda>u. u \<noteq> None) (gps_run s (tk # tks)))" using c(1) r by simp
  then have "hd (gps_run s (tk # tks)) \<noteq> None" using ne by (simp add: hd_map)
  moreover have "dispatch_count (gps_run s (tk # tks)) = 1"
    using c(2) r by (simp only: dispatch_count_map)
  ultimately show ?thesis by simp
qed

lemma rtc_catch_up:
  fixes tk :: rtc_tick and tks :: "rtc_tick list"
  assumes "lastSendTime s = millis t0"
    and "t0 + 6000 \<le> millis_sched tk" and "millis_sched tk < t0 + 2 ^ 32"
    and "app_ready tk"
    and "\<forall>x\<in>set tks. millis_sched tk \<le> millis_sched x
                      \<and> millis_sched x < millis_sched tk + 6000"
  shows "hd (rtc_run s (tk # tks)) \<noteq> None \<and> dispatch_count (rtc_run s (tk # tks)) = 1"
proof -
  obtain g t h where p: "rtc_pass tk = (g, t, h)" by (cases "rtc_pass tk")
  then have g: g and t: "t = millis_sched tk"
    using assms(4) by (auto simp add: rtc_pass_def)
  have q: "\<forall>x\<in>set (map rtc_pass tks). t \<le> fst (snd x) \<and> fst (snd x) < t + unat rtc_sendInterval"
    using assms(5) t by (simp add: rtc_pass_def rtc_sendInterval_def)
  have "t0 + unat rtc_sendInterval \<le> t" using assms(2) t by (simp add: rtc_sendInterval_def)
  from sched_catch_up [OF this _ g q, of h] assms(3) t
  have c: "hd (sched_run rtc_sendInterval (millis t0) ((g, t, h) # map rtc_pass tks))"
     "length (filter (\<lambda>b. b) (sched_run rtc_sendInterval (millis t0) ((g, t, h) # map rtc_pass tks))) = 1"
    by simp_all
  have r: "map (\<lambda>u. u \<noteq> None) (rtc_run s (tk # tks))
             = sched_run rtc_sendInterval (millis t0) ((g, t, h) # map rtc_pass tks)"
    using rtc_run_sched [of s "tk # tks"] assms(1) p by simp
  have ne: "rtc_run s (tk # tks) \<noteq> []" by (simp split: prod.splits)
  have "hd (map (\<lambda>u. u \<noteq> None) (rtc_run s (tk # tks)))" using c(1) r by simp
  then have "hd (rtc_run s (tk # tks)) \<noteq> None" using ne by (simp add: hd_map)
  moreover have "dispatch_count (rtc_run s (tk # tks)) = 1"
    using c(2) r by (simp only: dispatch_count_map)
  ultimately show ?thesis by simp
qed

lemma gps_single: "dispatch_count (gps_run s [tk]) \<le> 1"
  by (simp add: dispatch_count_def split: prod.splits)

lemma rtc_single: "dispatch_count (rtc_run s [tk]) \<le> 1"
  by (simp add: dispatch_count_def split: prod.splits)

lemmas example_eval =
  example_tick_def example_rtc_tick_def example_fix_def logger_init_def rtc_logger_init_def
  gps_pass_def rtc_pass_def gps_sendInterval_def rtc_sendInterval_def millis_def

text \<open>
  Claim C3, as amended. Passes are observed at real times that never decrease, the
  time of a pass being that of its interval test; \<open>millis()\<close> is the real time
  modulo \<open>2 ^ 32\<close>. In every run of either sketch, from any state of the globals, two
  passes that both dispatch lie at least one interval apart (60000 ms for the GPS
  sketch, 6000 ms for the sensor sketch). After a stall of one interval or more and of
  less than \<open>2 ^ 32\<close> ms since the time \<open>t0\<close> of the last dispatch, the first pass
  with the gate open dispatches, and it is the only dispatch among the passes of the
  following interval: the missed intervals are not made up. A single pass dispatches
  at most once. A stall of \<open>2 ^ 32\<close> ms or more is timed modulo \<open>2 ^ 32\<close>, and the
  pass that ends it may dispatch nothing.
\<close>

theorem scheduler_spacing_and_catch_up:
  "(\<forall>s (tks :: gps_tick list) i j.
      sorted (map millis_sched tks) \<and> i < j \<and> j < length (gps_run s tks)
        \<and> gps_run s tks ! i \<noteq> None \<and> gps_run s tks ! j \<noteq> None
      \<longrightarrow> millis_sched (tks ! i) + 60000 \<le> millis_sched (tks ! j))
   \<and> (\<forall>s (tks :: rtc_tick list) i j.
      sorted (map millis_sched tks) \<and> i < j \<and> j < length (rtc_run s tks)
        \<and> rtc_run s tks ! i \<noteq> None \<and> rtc_run s tks ! j \<noteq> None
      \<longrightarrow> millis_sched (tks ! i) + 6000 \<le> millis_sched (tks ! j))
   \<and> (\<forall>s t0 (tk :: gps_tick) tks.
      lastSendTime s = millis t0
        \<and> t0 + 60000 \<le> millis_sched tk \<and> millis_sched tk < t0 + 2 ^ 32
        \<and> app_ready tk \<and> location_valid (location (gps tk))
        \<and> date_valid (date (gps tk)) \<and> time_valid (time (gps tk))
        \<and> (\<forall>x\<in>set tks. millis_sched tk \<le> millis_sched x
                         \<and> millis_sched x < millis_sched tk + 60000)
      \<longrightarrow> hd (gps_run s (tk # tks)) \<noteq> None \<and> dispatch_count (gps_run s (tk # tks)) = 1)
   \<and> (\<forall>s t0 (tk :: rtc_tick) tks.
      lastSendTime s = millis t0
        \<and> t0 + 6000 \<le> millis_sched tk \<and> millis_sched tk < t0 + 2 ^ 32
        \<and> app_ready tk
        \<and> (\<forall>x\<in>set tks. millis_sched tk \<le> millis_sched x
                         \<and> millis_sched x < millis_sched tk + 6000)
      \<longrightarrow> hd (rtc_run s (tk # tks)) \<noteq> None \<and> dispatch_count (rtc_run s (tk # tks)) = 1)
   \<and> (\<forall>s tk. dispatch_count (gps_run s [tk]) \<le> 1)
   \<and> (\<forall>s tk. dispatch_count (rtc_run s [tk]) \<le> 1)"
proof (intro conjI allI impI)
  fix s and tks :: "gps_tick list" and i j
  assume "sorted (map millis_sched tks) \<and> i < j \<and> j < length (gps_run s tks)
        \<and> gps_run s tks ! i \<noteq> None \<and> gps_run s tks ! j \<noteq> None"
  then show "millis_sched (tks ! i) + 60000 \<le> millis_sched (tks ! j)"
    using gps_spacing [of tks i j s] by blast
next
  fix s and tks :: "rtc_tick list" and i j
  assume "sorted (map millis_sched tks) \<and> i < j \<and> j < length (rtc_run s tks)
        \<and> rtc_run s tks ! i \<noteq> None \<and> rtc_run s tks ! j \<noteq> None"
  then show "millis_sched (tks ! i) + 6000 \<le> millis_sched (tks ! j)"
    using rtc_spacing [of tks i j s] by blast
next
  fix s :: logger and t0 and tk :: gps_tick and tks :: "gps_tick list"
  assume h: "lastSendTime s = millis t0
        \<and> t0 + 60000 \<le> millis_sched tk \<and> millis_sched tk < t0 + 2 ^ 32
        \<and> app_ready tk \<and> location_valid (location (gps tk))
        \<and> date_valid (date (gps tk)) \<and> time_valid (time (gps tk))
        \<and> (\<forall>x\<in>set tks. millis_sched tk \<le> millis_sched x
                         \<and> millis_sched x < millis_sched tk + 60000)"
  then have "hd (gps_run s (tk # tks)) \<noteq> None \<and> dispatch_count (gps_run s (tk # tks)) = 1"
    by (intro gps_catch_up [of s t0 tk tks]) blast+
  then show "hd (gps_run s (tk # tks)) \<noteq> None"
    and "dispatch_count (gps_run s (tk # tks)) = 1" by simp_all
next
  fix s :: rtc_logger and t0 and tk :: rtc_tick and tks :: "rtc_tick list"
  assume h: "lastSendTime s = millis t0
        \<and> t0 + 6000 \<le> millis_sched tk \<and> millis_sched tk < t0 + 2 ^ 32
        \<and> app_ready tk
        \<and> (\<forall>x\<in>set tks. millis_sched tk \<le> millis_sched x
                         \<and> millis_sched x < millis_sched tk + 6000)"
  then have "hd (rtc_run s (tk # tks)) \<noteq> None \<and> dispatch_count (rtc_run s (tk # tks)) = 1"
    by (intro rtc_catch_up [of s t0 tk tks]) blast+
  then show "hd (rtc_run s (tk # tks)) \<noteq> None"
    and "dispatch_count (rtc_run s (tk # tks)) = 1" by simp_all
next
  fix s tk show "dispatch_count (gps_run s [tk]) \<le> 1" by (rule gps_single)
next
  fix s tk show "dispatch_count (rtc_run s [tk]) \<le> 1" by (rule rtc_single)
qed

lemma example_gps_pattern:
  "map (\<lambda>u. u \<noteq> None)
     (gps_run logger_init [example_tick 60000, example_tick 60050, example_tick 130000])
   = [True, False, True]"
  by (simp only: gps_run_sched) (simp add: example_eval)

lemma example_rtc_pattern:
  "map (\<lambda>u. u \<noteq> None)
     (rtc_run rtc_logger_init
        [example_rtc_tick 6000 1709251200, example_rtc_tick 6050 1709251200,
         example_rtc_tick 13000 1709251207])
   = [True, False, True]"
  by (simp only: rtc_run_sched) (simp add: example_eval)

lemma pattern_nth:
  "map (\<lambda>u. u \<noteq> None) r = bs \<Longrightarrow> i < length bs \<Longrightarrow> bs ! i \<Longrightarrow> r ! i \<noteq> None"
proof -
  assume a: "map (\<lambda>u. u \<noteq> None) r = bs" "i < length bs" "bs ! i"
  then have "i < length r" by auto
  then have "map (\<lambda>u. u \<noteq> None) r ! i = (r ! i \<noteq> None)" by (rule nth_map)
  then show ?thesis using a by simp
qed

lemma pattern_length: "map f r = bs \<Longrightarrow> length r = length bs"
  by auto

theorem scheduler_spacing_and_catch_up_witness:
  "sorted (map millis_sched [example_tick 60000, example_tick 60050, example_tick 130000])
   \<and> gps_run logger_init [example_tick 60000, example_tick 60050, example_tick 130000] ! 0 \<noteq> None
   \<and> gps_run logger_init [example_tick 60000, example_tick 60050, example_tick 130000] ! 2 \<noteq> None
   \<and> millis_sched ([example_tick 60000, example_tick 60050, example_tick 130000] ! 0) + 60000
        \<le> millis_sched ([example_tick 60000, example_tick 60050, example_tick 130000] ! 2)
   \<and> rtc_run rtc_logger_init
        [example_rtc_tick 6000 1709251200, example_rtc_tick 6050 1709251200,
         example_rtc_tick 13000 1709251207] ! 0 \<noteq> None
   \<and> rtc_run rtc_logger_init
        [example_rtc_tick 6000 1709251200, example_rtc_tick 6050 1709251200,
         example_rtc_tick 13000 1709251207] ! 2 \<noteq> None
   \<and> millis_sched ([example_rtc_tick 6000 1709251200, example_rtc_tick 6050 1709251200,
         example_rtc_tick 13000 1709251207] ! 0) + 6000
        \<le> millis_sched ([example_rtc_tick 6000 1709251200, example_rtc_tick 6050 1709251200,
         example_rtc_tick 13000 1709251207] ! 2)
   \<and> lastSendTime logger_init = millis 0
   \<and> hd (gps_run logger_init
        [example_tick 200000, example_tick 200050, example_tick 259999]) \<noteq> None
   \<and> dispatch_count (gps_run logger_init
        [example_tick 200000, example_tick 200050, example_tick 259999]) = 1
   \<and> lastSendTime rtc_logger_init = millis 0
   \<and> hd (rtc_run rtc_logger_init
        [example_rtc_tick 20000 1709251200, example_rtc_tick 20050 1709251200,
         example_rtc_tick 25999 1709251205]) \<noteq> None
   \<and> dispatch_count (rtc_run rtc_logger_init
        [example_rtc_tick 20000 1709251200, example_rtc_tick 20050 1709251200,
         example_rtc_tick 25999 1709251205]) = 1"
proof -
  let ?G = "[example_tick 60000, example_tick 60050, example_tick 130000]"
  let ?R = "[example_rtc_tick 6000 1709251200, example_rtc_tick 6050 1709251200,
         example_rtc_tick 13000 1709251207]"
  have lg: "length (gps_run logger_init ?G) = 3"
    using pattern_length [OF example_gps_pattern] by (simp del: gps_run.simps)
  have g0: "gps_run logger_init ?G ! 0 \<noteq> None"
    by (rule pattern_nth [OF example_gps_pattern]) (simp_all del: gps_run.simps)
  have g2: "gps_run logger_init ?G ! 2 \<noteq> None"
    by (rule pattern_nth [OF example_gps_pattern]) (simp_all del: gps_run.simps)
  have lr: "length (rtc_run rtc_logger_init ?R) = 3"
    using pattern_length [OF example_rtc_pattern] by (simp del: rtc_run.simps)
  have r0: "rtc_run rtc_logger_init ?R ! 0 \<noteq> None"
    by (rule pattern_nth [OF example_rtc_pattern]) (simp_all del: rtc_run.simps)
  have r2: "rtc_run rtc_logger_init ?R ! 2 \<noteq> None"
    by (rule pattern_nth [OF example_rtc_pattern]) (simp_all del: rtc_run.simps)
  have sg: "sorted (map millis_sched ?G)" by (simp add: example_tick_def)
  have sr: "sorted (map millis_sched ?R)" by (simp add: example_rtc_tick_def)
  note T = scheduler_spacing_and_catch_up
  have h1: "sorted (map millis_sched ?G) \<and> (0::nat) < 2 \<and> 2 < length (gps_run logger_init ?G)
        \<and> gps_run logger_init ?G ! 0 \<noteq> None \<and> gps_run logger_init ?G ! 2 \<noteq> None"
    using sg lg g0 g2 by (simp only: simp_thms) simp
  have c1: "millis_sched (?G ! 0) + 60000 \<le> millis_sched (?G ! 2)"
    by (rule T [THEN conjunct1, THEN spec, THEN spec, THEN spec, THEN spec, THEN mp, OF h1])
  have h2: "sorted (map millis_sched ?R) \<and> (0::nat) < 2 \<and> 2 < length (rtc_run rtc_logger_init ?R)
        \<and> rtc_run rtc_logger_init ?R ! 0 \<noteq> None \<and> rtc_run rtc_logger_init ?R ! 2 \<noteq> None"
    using sr lr r0 r2 by (simp only: simp_thms) simp
  have c2: "millis_sched (?R ! 0) + 6000 \<le> millis_sched (?R ! 2)"
    by (rule T [THEN conjunct2, THEN conjunct1,
          THEN spec, THEN spec, THEN spec, THEN spec, THEN mp, OF h2])
  have i0: "lastSendTime logger_init = millis 0" by (simp add: logger_init_def millis_def)
  have j0: "lastSendTime rtc_logger_init = millis 0"
    by (simp add: rtc_logger_init_def millis_def)
  have h3: "lastSendTime logger_init = millis 0
        \<and> 0 + 60000 \<le> millis_sched (example_tick 200000)
        \<and> millis_sched (example_tick 200000) < 0 + 2 ^ 32
        \<and> app_ready (example_tick 200000)
        \<and> location_valid (location (gps (example_tick 200000)))
        \<and> date_valid (date (gps (example_tick 200000)))
        \<and> time_valid (time (gps (example_tick 200000)))
        \<and> (\<forall>x\<in>set [example_tick 200050, example_tick 259999].
              millis_sched (example_tick 200000) \<le> millis_sched x
                \<and> millis_sched x < millis_sched (example_tick 200000) + 60000)"
    using i0 by (simp add: example_tick_def example_fix_def)
  have c3: "hd (gps_run logger_init
        [example_tick 200000, example_tick 200050, example_tick 259999]) \<noteq> None
     \<and> dispatch_count (gps_run logger_init
        [example_tick 200000, example_tick 200050, example_tick 259999]) = 1"
    by (rule T [THEN conjunct2, THEN conjunct2, THEN conjunct1,
          THEN spec, THEN spec, THEN spec, THEN spec, THEN mp, OF h3])
  have h4: "lastSendTime rtc_logger_init = millis 0
        \<and> 0 + 6000 \<le> millis_sched (example_rtc_tick 20000 1709251200)
        \<and> millis_sched (example_rtc_tick 20000 1709251200) < 0 + 2 ^ 32
        \<and> app_ready (example_rtc_tick 20000 1709251200)
        \<and> (\<forall>x\<in>set [example_rtc_tick 20050 1709251200, example_rtc_tick 25999 1709251205].
              millis_sched (example_rtc_tick 20000 1709251200) \<le> millis_sched x
                \<and> millis_sched x < millis_sched (example_rtc_tick 20000 1709251200) + 6000)"
    using j0 by (simp add: example_rtc_tick_def)
  have c4: "hd (rtc_run rtc_logger_init
        [example_rtc_tick 20000 1709251200, example_rtc_tick 20050 1709251200,
         example_rtc_tick 25999 1709251205]) \<noteq> None
     \<and> dispatch_count (rtc_run rtc_logger_init
        [example_rtc_tick 20000 1709251200, example_rtc_tick 20050 1709251200,
         example_rtc_tick 25999 1709251205]) = 1"
    by (rule T [THEN conjunct2, THEN conjunct2, THEN conjunct2, THEN conjunct1,
          THEN spec, THEN spec, THEN spec, THEN spec, THEN mp, OF h4])
  show ?thesis
    using sg g0 g2 c1 r0 r2 c2 i0 c3 j0 c4 by (intro conjI) (elim conjE, assumption)+
qed

lemma pattern_nth_none:
  "map (\<lambda>u. u \<noteq> None) r = bs \<Longrightarrow> i < length bs \<Longrightarrow> \<not> bs ! i \<Longrightarrow> r ! i = None"
proof -
  assume a: "map (\<lambda>u. u \<noteq> None) r = bs" "i < length bs" "\<not> bs ! i"
  then have "i < length r" by auto
  then have "map (\<lambda>u. u \<noteq> None) r ! i = (r ! i \<noteq> None)" by (rule nth_map)
  then show ?thesis using a by simp
qed

lemma wrapped_stall_gps_pattern:
  "map (\<lambda>u. u \<noteq> None)
     (gps_run logger_init
        [example_tick 60000, example_tick 4295057296, example_tick 4295057346])
   = [True, False, False]"
  by (simp only: gps_run_sched) (simp add: example_eval)

lemma wrapped_stall_rtc_pattern:
  "map (\<lambda>u. u \<noteq> None)
     (rtc_run rtc_logger_init
        [example_rtc_tick 6000 1709251200, example_rtc_tick 4294976296 1713546176,
         example_rtc_tick 4294976346 1713546176])
   = [True, False, False]"
  by (simp only: rtc_run_sched) (simp add: example_eval)

text \<open>
  A stall of \<open>2 ^ 32 + 30000\<close> ms after the dispatch at 60000 ms (more than 71000
  intervals): the pass that ends it finds the gate open and the counter only 30000
  ahead of \<open>lastSendTime\<close>, and dispatches nothing. The sensor sketch does the same
  after a stall of \<open>2 ^ 32 + 3000\<close> ms.
\<close>

theorem no_upload_after_wrapped_stall:
  "gps_run logger_init
     [example_tick 60000, example_tick 4295057296, example_tick 4295057346] ! 0 \<noteq> None
   \<and> app_ready (example_tick 4295057296)
   \<and> location_valid (location (gps (example_tick 4295057296)))
   \<and> date_valid (date (gps (example_tick 4295057296)))
   \<and> time_valid (time (gps (example_tick 4295057296)))
   \<and> gps_run logger_init
     [example_tick 60000, example_tick 4295057296, example_tick 4295057346] ! 1 = None
   \<and> gps_run logger_init
     [example_tick 60000, example_tick 4295057296, example_tick 4295057346] ! 2 = None
   \<and> rtc_run rtc_logger_init
        [example_rtc_tick 6000 1709251200, example_rtc_tick 4294976296 1713546176,
         example_rtc_tick 4294976346 1713546176] ! 0 \<noteq> None
   \<and> app_ready (example_rtc_tick 4294976296 1713546176)
   \<and> rtc_run rtc_logger_init
        [example_rtc_tick 6000 1709251200, example_rtc_tick 4294976296 1713546176,
         example_rtc_tick 4294976346 1713546176] ! 1 = None
   \<and> rtc_run rtc_logger_init
        [example_rtc_tick 6000 1709251200, example_rtc_tick 4294976296 1713546176,
         example_rtc_tick 4294976346 1713546176] ! 2 = None"
proof (intro conjI)
  show "gps_run logger_init
     [example_tick 60000, example_tick 4295057296, example_tick 4295057346] ! 0 \<noteq> None"
    by (rule pattern_nth [OF wrapped_stall_gps_pattern]) (simp_all del: gps_run.simps)
  show "gps_run logger_init
     [example_tick 60000, example_tick 4295057296, example_tick 4295057346] ! 1 = None"
    by (rule pattern_nth_none [OF wrapped_stall_gps_pattern]) (simp_all del: gps_run.simps)
  show "gps_run logger_init
     [example_tick 60000, example_tick 4295057296, example_tick 4295057346] ! 2 = None"
    by (rule pattern_nth_none [OF wrapped_stall_gps_pattern]) (simp_all del: gps_run.simps)
  show "rtc_run rtc_logger_init
        [example_rtc_tick 6000 1709251200, example_rtc_tick 4294976296 1713546176,
         example_rtc_tick 4294976346 1713546176] ! 0 \<noteq> None"
    by (rule pattern_nth [OF wrapped_stall_rtc_pattern]) (simp_all del: rtc_run.simps)
  show "rtc_run rtc_logger_init
        [example_rtc_tick 6000 1709251200, example_rtc_tick 4294976296 1713546176,
         example_rtc_tick 4294976346 1713546176] ! 1 = None"
    by (rule pattern_nth_none [OF wrapped_stall_rtc_pattern]) (simp_all del: rtc_run.simps)
  show "rtc_run rtc_logger_init
        [example_rtc_tick 6000 1709251200, example_rtc_tick 4294976296 1713546176,
         example_rtc_tick 4294976346 1713546176] ! 2 = None"
    by (rule pattern_nth_none [OF wrapped_stall_rtc_pattern]) (simp_all del: rtc_run.simps)
qed (simp_all add: example_tick_def example_rtc_tick_def example_fix_def)

subsection \<open>What a dispatch carries\<close>

lemma gps_loop_upload:
  assumes "fst (snd (gps_loop s tk)) = Some u"
  shows "up_path u = ''/UsersData/'' @ app_uid tk @ ''/gpsLogs'' @ ''/''
                       @ String_ulong (millis (millis_key tk))
         \<and> up_payload u =
             [(latPath, JLiteral ''0.0000000''),
              (lngPath, json_double (truncate5 (lng (location (gps tk))))),
              (timePath, json_ulong (getGPSEpochUTC (date (gps tk)) (time (gps tk))))]"
  using assms by (auto simp add: gps_loop_def Let_def split: if_splits)

lemma rtc_loop_upload:
  assumes "snd (rtc_loop s tk) = Some u"
  shows "up_path u = ''/UsersData/'' @ app_uid tk @ ''/readings'' @ ''/''
                       @ String_ulong (rtc_unixtime tk)
         \<and> up_payload u =
             [(''/smoking'', JBool (do_pin tk = LOW)),
              (''/timestamp'', JULong (rtc_unixtime tk)),
              (''/emergency_press'', JBool (emer_pin tk = LOW))]"
  using assms by (auto simp add: rtc_loop_def getEpochFromRTC_def Let_def split: if_splits)

lemma gps_run_nth:
  "i < length (gps_run s tks) \<Longrightarrow> \<exists>s'. gps_run s tks ! i = fst (snd (gps_loop s' (tks ! i)))"
proof (induction tks arbitrary: s i)
  case Nil
  then show ?case by simp
next
  case (Cons tk tks)
  obtain s1 sent h where l: "gps_loop s tk = (s1, sent, h)" by (cases "gps_loop s tk")
  show ?case
  proof (cases i)
    case 0
    then show ?thesis using l by (auto intro: exI [of _ s])
  next
    case (Suc k)
    with Cons.prems l have "\<not> h" and "k < length (gps_run s1 tks)"
      by (auto split: if_splits)
    with Cons.IH [of k s1] Suc l show ?thesis by simp
  qed
qed

lemma rtc_run_nth:
  "i < length (rtc_run s tks) \<Longrightarrow> \<exists>s'. rtc_run s tks ! i = snd (rtc_loop s' (tks ! i))"
proof (induction tks arbitrary: s i)
  case Nil
  then show ?case by simp
next
  case (Cons tk tks)
  obtain s1 sent where l: "rtc_loop s tk = (s1, sent)" by (cases "rtc_loop s tk")
  show ?case
  proof (cases i)
    case 0
    then show ?thesis using l by (auto intro: exI [of _ s])
  next
    case (Suc k)
    with Cons.prems l have "k < length (rtc_run s1 tks)" by simp
    with Cons.IH [of k s1] Suc l show ?thesis by simp
  qed
qed

text \<open>
  Claim C1. The payload of a dispatch has the three fields \<open>/latitude\<close>,
  \<open>/longitude\<close> and \<open>/timestamp\<close>; the longitude is the truncated coordinate and
  the timestamp the computed epoch (\<open>gps_loop_upload\<close>). The latitude field,
  however, is the literal text \<open>0.0000000\<close> whatever the fix: for the fix at
  latitude 12.3456789 the pass computes the truncated latitude 12.34567 and then
  writes the literal instead.
\<close>

theorem latitude_placeholder_written:
  "map_option up_payload (fst (snd (gps_loop logger_init (example_tick 60000))))
     = Some [(''/latitude'', JLiteral ''0.0000000''),
             (''/longitude'', JDouble (double_literal 7712345 5)),
             (''/timestamp'', JULong 1709251200)]
   \<and> truncate5 (lat (location (gps (example_tick 60000)))) = Some (double_literal 1234567 5)"
proof -
  have "fst (snd (gps_loop logger_init (example_tick 60000))) \<noteq> None"
    by (simp add: gps_loop_def example_tick_def example_fix_def logger_init_def
          gps_sendInterval_def millis_def Let_def)
  then obtain u where u: "fst (snd (gps_loop logger_init (example_tick 60000))) = Some u"
    by blast
  have lng: "truncate5 (lng (location (gps (example_tick 60000))))
               = Some (double_literal 7712345 5)"
    by (simp add: example_tick_def example_fix_def double_eval)
  have ep: "getGPSEpochUTC (date (gps (example_tick 60000))) (time (gps (example_tick 60000)))
              = Some 1709251200"
    by (simp add: example_tick_def example_fix_def getGPSEpochUTC_def calendar_eval)
  have lat: "truncate5 (lat (location (gps (example_tick 60000))))
               = Some (double_literal 1234567 5)"
    by (simp add: example_tick_def example_fix_def truncate5_example literal_12_34567)
  from gps_loop_upload [OF u] show ?thesis
    by (simp add: u lng ep lat json_double_def json_ulong_def latPath_def lngPath_def
          timePath_def)
qed

subsection \<open>Keys and target paths\<close>

lemma dec_digits_nonempty: "dec_digits n \<noteq> []"
  by (subst dec_digits.simps) simp

lemma digit_inj:
  assumes "a < 10" "b < 10" "''0123456789'' ! a = ''0123456789'' ! b"
  shows "a = b"
proof -
  have "distinct ''0123456789''" by simp
  moreover have "a < length ''0123456789''" "b < length ''0123456789''"
    using assms by simp_all
  ultimately show ?thesis using assms(3) by (simp only: nth_eq_iff_index_eq)
qed

lemma dec_digits_inj: "dec_digits m = dec_digits n \<Longrightarrow> m = n"
proof (induction m arbitrary: n rule: less_induct)
  case (less m)
  show ?case
  proof (cases "m < 10")
    case True
    then have m: "dec_digits m = [''0123456789'' ! m]" by (subst dec_digits.simps) simp
    show ?thesis
    proof (cases "n < 10")
      case nt: True
      then have "dec_digits n = [''0123456789'' ! n]" by (subst dec_digits.simps) simp
      with less.prems m have "''0123456789'' ! m = ''0123456789'' ! n" by simp
      with True nt show ?thesis by (rule digit_inj)
    next
      case False
      then have "dec_digits n = dec_digits (n div 10) @ [''0123456789'' ! (n mod 10)]"
        by (subst dec_digits.simps) simp
      with less.prems m have "dec_digits (n div 10) = []" by simp
      then show ?thesis by (simp add: dec_digits_nonempty)
    qed
  next
    case False
    then have m: "dec_digits m = dec_digits (m div 10) @ [''0123456789'' ! (m mod 10)]"
      by (subst dec_digits.simps) simp
    show ?thesis
    proof (cases "n < 10")
      case True
      then have "dec_digits n = [''0123456789'' ! n]" by (subst dec_digits.simps) simp
      with less.prems m have "dec_digits (m div 10) = []" by simp
      then show ?thesis by (simp add: dec_digits_nonempty)
    next
      case nf: False
      then have "dec_digits n = dec_digits (n div 10) @ [''0123456789'' ! (n mod 10)]"
        by (subst dec_digits.simps) simp
      with less.prems m have d: "dec_digits (m div 10) = dec_digits (n div 10)"
        and l: "''0123456789'' ! (m mod 10) = ''0123456789'' ! (n mod 10)" by simp_all
      have "m div 10 < m" using False by simp
      from less.IH [OF this d] have q: "m div 10 = n div 10" .
      have "m mod 10 = n mod 10" by (rule digit_inj [OF _ _ l]) simp_all
      with q show ?thesis by (metis div_mult_mod_eq)
    qed
  qed
qed

lemma String_ulong_inj: "String_ulong a = String_ulong b \<Longrightarrow> a = b"
  by (simp add: String_ulong_def dec_digits_inj [THEN word_unat_eq_iff [THEN iffD2]])

lemma dec_digits_chars: "set (dec_digits n) \<subseteq> set ''0123456789''"
proof (induction n rule: dec_digits.induct)
  case (1 n)
  show ?case
  proof (cases "n < 10")
    case True
    then have "dec_digits n = [''0123456789'' ! n]" by (subst dec_digits.simps) simp
    moreover have "''0123456789'' ! n \<in> set ''0123456789''"
      using True by (intro nth_mem) simp
    ultimately show ?thesis by simp
  next
    case False
    then have "dec_digits n = dec_digits (n div 10) @ [''0123456789'' ! (n mod 10)]"
      by (subst dec_digits.simps) simp
    moreover have "''0123456789'' ! (n mod 10) \<in> set ''0123456789''"
      by (intro nth_mem) simp
    ultimately show ?thesis using "1.IH" [OF False] by simp
  qed
qed

lemma String_ulong_no_slash: "CHR ''/'' \<notin> set (String_ulong w)"
  using dec_digits_chars [of "unat w"] by (auto simp add: String_ulong_def)

lemma last_segment:
  assumes "p @ ''/'' @ k = q @ ''/'' @ l" "CHR ''/'' \<notin> set k" "CHR ''/'' \<notin> set l"
  shows "k = l"
proof -
  have seg: "rev (takeWhile (\<lambda>c. c \<noteq> CHR ''/'') (rev (p @ ''/'' @ k))) = k"
    if "CHR ''/'' \<notin> set k" for p k
  proof -
    have A: "takeWhile (\<lambda>c. c \<noteq> CHR ''/'') (rev k) = rev k"
      using that by (auto simp add: takeWhile_eq_all_conv)
    have B: "takeWhile (\<lambda>c. c \<noteq> CHR ''/'') (rev (p @ ''/'' @ k))
               = takeWhile (\<lambda>c. c \<noteq> CHR ''/'') (rev k)"
      using that by (auto simp add: takeWhile_tail)
    show ?thesis by (simp only: B A rev_rev_ident)
  qed
  have "k = rev (takeWhile (\<lambda>c. c \<noteq> CHR ''/'') (rev (p @ ''/'' @ k)))"
    by (simp only: seg [OF assms(2)])
  also have "\<dots> = rev (takeWhile (\<lambda>c. c \<noteq> CHR ''/'') (rev (q @ ''/'' @ l)))"
    by (simp only: assms(1))
  also have "\<dots> = l" by (rule seg [OF assms(3)])
  finally show ?thesis .
qed

lemma mod_apart:
  assumes "a < b" "b < a + 2 ^ 32"
  shows "millis a \<noteq> millis b"
proof
  assume "millis a = millis b"
  then have "unat (millis b - millis a) = 0" by simp
  moreover have "unat (millis b - millis a) = (b - a) mod 2 ^ 32"
    using assms(1) by (simp add: millis_diff)
  moreover have "(b - a) mod 2 ^ 32 = b - a" using assms by simp
  ultimately show False using assms(1) by simp
qed

lemma gps_paths_distinct:
  fixes tks :: "gps_tick list"
  assumes srt: "sorted (map millis_sched tks)"
    and key: "\<forall>tk\<in>set tks. millis_sched tk \<le> millis_key tk
                            \<and> millis_key tk < millis_sched tk + 60000"
    and ij: "i < j" "j < length (gps_run s tks)"
    and u: "gps_run s tks ! i = Some u" and v: "gps_run s tks ! j = Some v"
    and near: "millis_key (tks ! j) < millis_key (tks ! i) + 2 ^ 32"
  shows "up_path u \<noteq> up_path v"
proof
  assume eq: "up_path u = up_path v"
  have jl: "j < length tks" using ij(2) gps_run_length [of s tks] by simp
  then have il: "i < length tks" using ij(1) by simp
  have sp: "millis_sched (tks ! i) + 60000 \<le> millis_sched (tks ! j)"
    using gps_spacing [OF srt ij] u v by simp
  have ki: "millis_key (tks ! i) < millis_sched (tks ! i) + 60000"
    using key il by simp
  have kj: "millis_sched (tks ! j) \<le> millis_key (tks ! j)"
    using key jl by simp
  have lt: "millis_key (tks ! i) < millis_key (tks ! j)" using sp ki kj by simp
  obtain si where "gps_run s tks ! i = fst (snd (gps_loop si (tks ! i)))"
    using gps_run_nth [of i s tks] ij by auto
  with u have pu: "up_path u = (''/UsersData/'' @ app_uid (tks ! i) @ ''/gpsLogs'') @ ''/''
                       @ String_ulong (millis (millis_key (tks ! i)))"
    using gps_loop_upload [of si "tks ! i" u] by simp
  obtain sj where "gps_run s tks ! j = fst (snd (gps_loop sj (tks ! j)))"
    using gps_run_nth [of j s tks] ij by auto
  with v have pv: "up_path v = (''/UsersData/'' @ app_uid (tks ! j) @ ''/gpsLogs'') @ ''/''
                       @ String_ulong (millis (millis_key (tks ! j)))"
    using gps_loop_upload [of sj "tks ! j" v] by simp
  have "String_ulong (millis (millis_key (tks ! i)))
          = String_ulong (millis (millis_key (tks ! j)))"
    using eq unfolding pu pv
    by (rule last_segment) (rule String_ulong_no_slash)+
  then have "millis (millis_key (tks ! i)) = millis (millis_key (tks ! j))"
    by (rule String_ulong_inj)
  with mod_apart [OF lt near] show False by simp
qed

lemma rtc_paths_distinct:
  fixes tks :: "rtc_tick list"
  assumes srt: "sorted (map millis_sched tks)"
    and adv: "\<forall>a b. a < b \<and> b < length tks
                     \<and> millis_sched (tks ! a) + 6000 \<le> millis_sched (tks ! b)
                \<longrightarrow> rtc_unixtime (tks ! a) < rtc_unixtime (tks ! b)"
    and ij: "i < j" "j < length (rtc_run s tks)"
    and u: "rtc_run s tks ! i = Some u" and v: "rtc_run s tks ! j = Some v"
  shows "up_path u \<noteq> up_path v"
proof
  assume eq: "up_path u = up_path v"
  have jl: "j < length tks" using ij(2) rtc_run_length [of s tks] by simp
  have sp: "millis_sched (tks ! i) + 6000 \<le> millis_sched (tks ! j)"
    using rtc_spacing [OF srt ij] u v by simp
  have lt: "rtc_unixtime (tks ! i) < rtc_unixtime (tks ! j)"
    using adv ij(1) jl sp by blast
  obtain si where "rtc_run s tks ! i = snd (rtc_loop si (tks ! i))"
    using rtc_run_nth [of i s tks] ij by auto
  with u have pu: "up_path u = (''/UsersData/'' @ app_uid (tks ! i) @ ''/readings'') @ ''/''
                       @ String_ulong (rtc_unixtime (tks ! i))"
    using rtc_loop_upload [of si "tks ! i" u] by simp
  obtain sj where "rtc_run s tks ! j = snd (rtc_loop sj (tks ! j))"
    using rtc_run_nth [of j s tks] ij by auto
  with v have pv: "up_path v = (''/UsersData/'' @ app_uid (tks ! j) @ ''/readings'') @ ''/''
                       @ String_ulong (rtc_unixtime (tks ! j))"
    using rtc_loop_upload [of sj "tks ! j" v] by simp
  have "String_ulong (rtc_unixtime (tks ! i)) = String_ulong (rtc_unixtime (tks ! j))"
    using eq unfolding pu pv
    by (rule last_segment) (rule String_ulong_no_slash)+
  then have "rtc_unixtime (tks ! i) = rtc_unixtime (tks ! j)"
    by (rule String_ulong_inj)
  with lt show False by simp
qed

text \<open>
  Where the keys are distinct. In the GPS sketch (key \<open>String(millis())\<close>): every
  pass reads the key less than one interval after its interval test, and the two key
  reads are less than \<open>2 ^ 32\<close> ms apart. In the sensor sketch (key: the epoch of the
  clock chip): the chip reports a strictly larger epoch whenever 6000 ms or more have
  passed.
\<close>

lemma upload_keys_distinct:
  "(\<forall>s (tks :: gps_tick list) i j u v.
      sorted (map millis_sched tks)
        \<and> (\<forall>tk\<in>set tks. millis_sched tk \<le> millis_key tk
                          \<and> millis_key tk < millis_sched tk + 60000)
        \<and> i < j \<and> j < length (gps_run s tks)
        \<and> gps_run s tks ! i = Some u \<and> gps_run s tks ! j = Some v
        \<and> millis_key (tks ! j) < millis_key (tks ! i) + 2 ^ 32
      \<longrightarrow> up_path u \<noteq> up_path v)
   \<and> (\<forall>s (tks :: rtc_tick list) i j u v.
      sorted (map millis_sched tks)
        \<and> (\<forall>a b. a < b \<and> b < length tks
                  \<and> millis_sched (tks ! a) + 6000 \<le> millis_sched (tks ! b)
              \<longrightarrow> rtc_unixtime (tks ! a) < rtc_unixtime (tks ! b))
        \<and> i < j \<and> j < length (rtc_run s tks)
        \<and> rtc_run s tks ! i = Some u \<and> rtc_run s tks ! j = Some v
      \<longrightarrow> up_path u \<noteq> up_path v)"
proof (intro conjI allI impI)
  fix s and tks :: "gps_tick list" and i j u v
  assume "sorted (map millis_sched tks)
        \<and> (\<forall>tk\<in>set tks. millis_sched tk \<le> millis_key tk
                          \<and> millis_key tk < millis_sched tk + 60000)
        \<and> i < j \<and> j < length (gps_run s tks)
        \<and> gps_run s tks ! i = Some u \<and> gps_run s tks ! j = Some v
        \<and> millis_key (tks ! j) < millis_key (tks ! i) + 2 ^ 32"
  then show "up_path u \<noteq> up_path v"
    by (intro gps_paths_distinct [of tks i j s u v]) blast+
next
  fix s and tks :: "rtc_tick list" and i j u v
  assume "sorted (map millis_sched tks)
        \<and> (\<forall>a b. a < b \<and> b < length tks
                  \<and> millis_sched (tks ! a) + 6000 \<le> millis_sched (tks ! b)
              \<longrightarrow> rtc_unixtime (tks ! a) < rtc_unixtime (tks ! b))
        \<and> i < j \<and> j < length (rtc_run s tks)
        \<and> rtc_run s tks ! i = Some u \<and> rtc_run s tks ! j = Some v"
  then show "up_path u \<noteq> up_path v"
    by (intro rtc_paths_distinct [of tks i j s u v]) blast+
qed

lemma gps_run_path:
  assumes "i < length (gps_run s tks)" "gps_run s tks ! i \<noteq> None"
  shows "map_option up_path (gps_run s tks ! i)
           = Some (''/UsersData/'' @ app_uid (tks ! i) @ ''/gpsLogs'' @ ''/''
                     @ String_ulong (millis (millis_key (tks ! i))))"
proof -
  obtain u where u: "gps_run s tks ! i = Some u" using assms(2) by blast
  obtain si where "gps_run s tks ! i = fst (snd (gps_loop si (tks ! i)))"
    using gps_run_nth [OF assms(1)] by blast
  with u gps_loop_upload [of si "tks ! i" u] show ?thesis by simp
qed

lemma wrap_gps_pattern:
  "map (\<lambda>u. u \<noteq> None)
     (gps_run logger_init [example_tick 60000, example_tick 120000, example_tick 4295027296])
   = [True, True, True]"
  by (simp only: gps_run_sched) (simp add: example_eval)

text \<open>
  Claim C8. Two distinct dispatches of one run are to have distinct keys, so that no
  \<open>set\<close> overwrites an earlier record. The key of the GPS sketch is the 32-bit value
  of \<open>millis()\<close>: the passes at 60000 ms, 120000 ms and \<open>2 ^ 32 + 60000\<close> ms all
  dispatch, and the first and the third go to the same path.
\<close>

theorem gps_key_repeats_after_wrap:
  "map_option up_path
     (gps_run logger_init
        [example_tick 60000, example_tick 120000, example_tick 4295027296] ! 0)
     = Some ''/UsersData/u1/gpsLogs/60000''
   \<and> map_option up_path
     (gps_run logger_init
        [example_tick 60000, example_tick 120000, example_tick 4295027296] ! 2)
     = Some ''/UsersData/u1/gpsLogs/60000''"
proof -
  let ?W = "[example_tick 60000, example_tick 120000, example_tick 4295027296]"
  have l: "length (gps_run logger_init ?W) = 3"
    using pattern_length [OF wrap_gps_pattern] by (simp del: gps_run.simps)
  have w0: "gps_run logger_init ?W ! 0 \<noteq> None"
    by (rule pattern_nth [OF wrap_gps_pattern]) (simp_all del: gps_run.simps)
  have w2: "gps_run logger_init ?W ! 2 \<noteq> None"
    by (rule pattern_nth [OF wrap_gps_pattern]) (simp_all del: gps_run.simps)
  have k0: "String_ulong (millis (millis_key (?W ! 0))) = ''60000''"
    by (simp add: example_tick_def millis_def String_ulong_def dec_digits.simps)
  have k2: "String_ulong (millis (millis_key (?W ! 2))) = ''60000''"
    by (simp add: example_tick_def millis_def String_ulong_def dec_digits.simps)
  have u0: "app_uid (?W ! 0) = ''u1''" "app_uid (?W ! 2) = ''u1''"
    by (simp_all add: example_tick_def)
  have "0 < length (gps_run logger_init ?W)" "2 < length (gps_run logger_init ?W)"
    using l by simp_all
  from gps_run_path [OF this(1) w0] gps_run_path [OF this(2) w2]
  show ?thesis by (simp only: k0 k2 u0) simp
qed

lemma rtc_run_path:
  assumes "i < length (rtc_run s tks)" "rtc_run s tks ! i \<noteq> None"
  shows "map_option up_path (rtc_run s tks ! i)
           = Some (''/UsersData/'' @ app_uid (tks ! i) @ ''/readings'' @ ''/''
                     @ String_ulong (rtc_unixtime (tks ! i)))"
proof -
  obtain u where u: "rtc_run s tks ! i = Some u" using assms(2) by blast
  obtain si where "rtc_run s tks ! i = snd (rtc_loop si (tks ! i))"
    using rtc_run_nth [OF assms(1)] by blast
  with u rtc_loop_upload [of si "tks ! i" u] show ?thesis by simp
qed

lemma same_reading_rtc_pattern:
  "map (\<lambda>u. u \<noteq> None)
     (rtc_run rtc_logger_init
        [example_rtc_tick 6000 1709251200, example_rtc_tick 12000 1709251200])
   = [True, True]"
  by (simp only: rtc_run_sched) (simp add: example_eval)

text \<open>
  The sensor sketch takes the reading of the clock chip as the key: two dispatches at
  which the chip reports the same epoch go to the same path.
\<close>

lemma rtc_key_repeats_on_same_reading:
  "map_option up_path
     (rtc_run rtc_logger_init
        [example_rtc_tick 6000 1709251200, example_rtc_tick 12000 1709251200] ! 0)
     = Some ''/UsersData/u1/readings/1709251200''
   \<and> map_option up_path
     (rtc_run rtc_logger_init
        [example_rtc_tick 6000 1709251200, example_rtc_tick 12000 1709251200] ! 1)
     = Some ''/UsersData/u1/readings/1709251200''"
proof -
  let ?R = "[example_rtc_tick 6000 1709251200, example_rtc_tick 12000 1709251200]"
  have l: "length (rtc_run rtc_logger_init ?R) = 2" by (simp only: rtc_run_length) simp
  have w0: "rtc_run rtc_logger_init ?R ! 0 \<noteq> None"
    by (rule pattern_nth [OF same_reading_rtc_pattern]) (simp_all del: rtc_run.simps)
  have w1: "rtc_run rtc_logger_init ?R ! 1 \<noteq> None"
    by (rule pattern_nth [OF same_reading_rtc_pattern]) (simp_all del: rtc_run.simps)
  have k: "String_ulong (rtc_unixtime (?R ! 0)) = ''1709251200''"
    "String_ulong (rtc_unixtime (?R ! 1)) = ''1709251200''"
    by (simp_all add: example_rtc_tick_def String_ulong_def dec_digits.simps)
  have u: "app_uid (?R ! 0) = ''u1''" "app_uid (?R ! 1) = ''u1''"
    by (simp_all add: example_rtc_tick_def)
  have "0 < length (rtc_run rtc_logger_init ?R)" "1 < length (rtc_run rtc_logger_init ?R)"
    using l by simp_all
  from rtc_run_path [OF this(1) w0] rtc_run_path [OF this(2) w1]
  show ?thesis by (simp only: k u) simp
qed

section \<open>Properties of the network time reconciliation\<close>

lemma time_reached_iff: "time_reached wide now \<longleftrightarrow> \<not> time_below wide now"
  by (auto simp add: time_reached_def time_below_def not_less)

lemma ntp_wait_stop:
  "\<not> (time_below wide now \<and> millis t - startMillis < 10000) \<Longrightarrow>
   ntp_wait wide time_at lag startMillis t now out = Some (t, now, out)"
  by (subst ntp_wait.simps) auto

lemma ntp_wait_step:
  "time_below wide now \<Longrightarrow> millis t - startMillis < 10000 \<Longrightarrow>
   ntp_wait wide time_at lag startMillis t now out
     = ntp_wait wide time_at lag startMillis (t + 500 + lag t)
         (time_at (t + 500 + lag t)) (out @ ''.'')"
  by (subst ntp_wait.simps) simp

lemma ntp_wait_run:
  assumes "j \<le> k"
    and "\<forall>i. j \<le> i \<and> i < k \<longrightarrow>
           time_below wide (time_at (poll_time lag t0 i))
           \<and> millis (poll_time lag t0 i) - millis t0 < 10000"
    and "\<not> (time_below wide (time_at (poll_time lag t0 k))
            \<and> millis (poll_time lag t0 k) - millis t0 < 10000)"
  shows "ntp_wait wide time_at lag (millis t0) (poll_time lag t0 j)
           (time_at (poll_time lag t0 j)) out
         = Some (poll_time lag t0 k, time_at (poll_time lag t0 k),
                 out @ replicate (k - j) CHR ''.'')"
  using assms(1,2)
proof (induction "k - j" arbitrary: j out)
  case 0
  then have jk: "j = k" by simp
  show ?case unfolding jk using ntp_wait_stop [OF assms(3)] by simp
next
  case (Suc d)
  then have jk: "j < k" by simp
  then have inv: "time_below wide (time_at (poll_time lag t0 j))"
    and go: "millis (poll_time lag t0 j) - millis t0 < 10000"
    using Suc.prems by simp_all
  have step: "ntp_wait wide time_at lag (millis t0) (poll_time lag t0 j)
                (time_at (poll_time lag t0 j)) out
          = ntp_wait wide time_at lag (millis t0) (poll_time lag t0 (Suc j))
              (time_at (poll_time lag t0 (Suc j))) (out @ ''.'')"
    using ntp_wait_step [OF inv go] by simp
  have "d = k - Suc j" using Suc.hyps(2) by simp
  moreover have "Suc j \<le> k" using jk by simp
  moreover have "\<forall>i. Suc j \<le> i \<and> i < k \<longrightarrow>
           time_below wide (time_at (poll_time lag t0 i))
           \<and> millis (poll_time lag t0 i) - millis t0 < 10000"
    using Suc.prems by simp
  ultimately have "ntp_wait wide time_at lag (millis t0) (poll_time lag t0 (Suc j))
                     (time_at (poll_time lag t0 (Suc j))) (out @ ''.'')
        = Some (poll_time lag t0 k, time_at (poll_time lag t0 k),
           (out @ ''.'') @ replicate (k - Suc j) CHR ''.'')"
    by (rule Suc.hyps(1))
  moreover have "(out @ ''.'') @ replicate (k - Suc j) CHR ''.''
                   = out @ replicate (k - j) CHR ''.''"
  proof -
    have "k - j = Suc (k - Suc j)" using jk by simp
    then show ?thesis by (simp add: replicate_app_Cons_same)
  qed
  ultimately show ?case using step by simp
qed

lemma poll_time_ge: "t0 + 500 * i \<le> poll_time lag t0 i"
  by (induction i) auto

lemma elapsed_below: "t0 \<le> p \<Longrightarrow> p < t0 + 10000 \<Longrightarrow> millis p - millis t0 < 10000"
proof -
  assume a: "t0 \<le> p" "p < t0 + 10000"
  then have "(p - t0) mod 2 ^ 32 = p - t0" by simp
  then have "unat (millis p - millis t0) = p - t0" using a(1) by (simp add: millis_diff)
  then show ?thesis using a by (simp add: word_less_nat_alt)
qed

lemma elapsed_reached:
  "t0 + 10000 \<le> p \<Longrightarrow> p < t0 + 2 ^ 32 \<Longrightarrow> \<not> millis p - millis t0 < 10000"
proof -
  assume a: "t0 + 10000 \<le> p" "p < t0 + 2 ^ 32"
  then have "(p - t0) mod 2 ^ 32 = p - t0" by simp
  then have "unat (millis p - millis t0) = p - t0" using a(1) by (simp add: millis_diff)
  then show ?thesis using a by (simp add: word_less_nat_alt)
qed

lemma setup_ntp_polls:
  assumes "\<forall>i<k. time_below wide (time_at (poll_time lag t0 i))
                  \<and> poll_time lag t0 i < t0 + 10000"
    and "\<not> time_below wide (time_at (poll_time lag t0 k))
         \<or> (t0 + 10000 \<le> poll_time lag t0 k \<and> poll_time lag t0 k < t0 + 2 ^ 32)"
  shows "setup_ntp wide time_at lag t0 rtc =
           (let now = time_at (poll_time lag t0 k);
                out = println ''Syncing time with NTP (UTC)...'' @ replicate k CHR ''.''
                        @ println []
            in if time_reached wide now
               then Some (rtc_adjust (word_of_int now) rtc,
                     out @ ''NTP epoch (UTC): '' @ println (String_ulong (word_of_int now))
                         @ println ''RTC updated from NTP (UTC).'',
                     poll_time lag t0 k)
               else Some (rtc, out @ println ''Failed to get NTP time; RTC not updated.'',
                     poll_time lag t0 k))"
proof -
  have before: "\<forall>i. 0 \<le> i \<and> i < k \<longrightarrow>
           time_below wide (time_at (poll_time lag t0 i))
           \<and> millis (poll_time lag t0 i) - millis t0 < 10000"
  proof (intro allI impI)
    fix i assume "0 \<le> i \<and> i < k"
    then have "time_below wide (time_at (poll_time lag t0 i))"
      and "poll_time lag t0 i < t0 + 10000" using assms(1) by simp_all
    moreover have "t0 \<le> poll_time lag t0 i" using poll_time_ge [of t0 i lag] by simp
    ultimately show "time_below wide (time_at (poll_time lag t0 i))
           \<and> millis (poll_time lag t0 i) - millis t0 < 10000"
      by (simp add: elapsed_below)
  qed
  have stop: "\<not> (time_below wide (time_at (poll_time lag t0 k))
            \<and> millis (poll_time lag t0 k) - millis t0 < 10000)"
    using assms(2) by (auto simp add: elapsed_reached)
  have "ntp_wait wide time_at lag (millis t0) (poll_time lag t0 0)
          (time_at (poll_time lag t0 0)) (println ''Syncing time with NTP (UTC)...'')
        = Some (poll_time lag t0 k, time_at (poll_time lag t0 k),
           println ''Syncing time with NTP (UTC)...'' @ replicate (k - 0) CHR ''.'')"
    using before stop by (intro ntp_wait_run) simp_all
  then have "ntp_wait wide time_at lag (millis t0) t0 (time_at t0)
          (println ''Syncing time with NTP (UTC)...'')
        = Some (poll_time lag t0 k, time_at (poll_time lag t0 k),
           println ''Syncing time with NTP (UTC)...'' @ replicate k CHR ''.'')"
    by simp
  then show ?thesis by (simp add: setup_ntp_def Let_def)
qed

lemma last_poll:
  fixes time_at :: "nat \<Rightarrow> int"
  assumes "\<forall>t. lag t \<le> L" "L + 10500 \<le> 2 ^ 32"
  obtains k where
    "\<forall>i<k. time_below wide (time_at (poll_time lag t0 i)) \<and> poll_time lag t0 i < t0 + 10000"
    "\<not> time_below wide (time_at (poll_time lag t0 k))
       \<or> (t0 + 10000 \<le> poll_time lag t0 k \<and> poll_time lag t0 k < t0 + 2 ^ 32)"
    "poll_time lag t0 k < t0 + 10500 + L"
proof -
  define P where "P k \<longleftrightarrow> \<not> time_below wide (time_at (poll_time lag t0 k))
                         \<or> t0 + 10000 \<le> poll_time lag t0 k" for k
  define k where "k = (LEAST k. P k)"
  have "P 20" using poll_time_ge [of t0 20 lag] by (simp add: P_def)
  then have Pk: "P k" unfolding k_def by (rule LeastI)
  have nP: "\<not> P i" if "i < k" for i using that unfolding k_def by (rule not_less_Least)
  have before: "\<forall>i<k. time_below wide (time_at (poll_time lag t0 i))
                      \<and> poll_time lag t0 i < t0 + 10000"
    using nP by (auto simp add: P_def not_le)
  have bound: "poll_time lag t0 k < t0 + 10500 + L"
  proof (cases k)
    case 0
    then show ?thesis by simp
  next
    case (Suc j)
    then have "poll_time lag t0 j < t0 + 10000" using before by simp
    moreover have "lag (poll_time lag t0 j) \<le> L" using assms(1) by simp
    ultimately show ?thesis using Suc by simp
  qed
  then have "poll_time lag t0 k < t0 + 2 ^ 32" using assms(2) by simp
  with Pk have stopk: "\<not> time_below wide (time_at (poll_time lag t0 k))
       \<or> (t0 + 10000 \<le> poll_time lag t0 k \<and> poll_time lag t0 k < t0 + 2 ^ 32)"
    by (auto simp add: P_def)
  from before stopk bound show ?thesis by (rule that)
qed

lemma rtc_pass_cong:
  fixes tks tks' :: "rtc_tick list"
  assumes "map app_ready tks = map app_ready tks'"
    and "map millis_sched tks = map millis_sched tks'"
  shows "map rtc_pass tks = map rtc_pass tks'"
proof -
  have "map rtc_pass xs = map (\<lambda>(r, t). (r, t, False)) (zip (map app_ready xs) (map millis_sched xs))"
    for xs :: "rtc_tick list"
    by (induction xs) (simp_all add: rtc_pass_def)
  then show ?thesis using assms by simp
qed

text \<open>
  Claim C6, as amended. The loop reads the time and, as long as the reading is not
  accepted and the millisecond counter is less than 10000 ahead of its value at the
  start, waits 500 ms and reads again. Hence no iteration begins once 10000 ms have
  passed: when no iteration lasts more than \<open>500 + L\<close> ms, the wait ends less than
  \<open>10500 + L\<close> ms after it began. A reading is accepted when it is at least
  1600000000, equality included, compared as the source compares it (signed where
  \<open>time_t\<close> is 64 bits wide, as a 32-bit unsigned value where it is 32 bits wide). If
  the reading at the poll that ends the wait is accepted, the clock chip is set to its
  low 32 bits; if not, the chip is left as it was and the serial output ends with the
  failure message. Nothing of this reaches \<open>loop()\<close>: which passes dispatch depends
  on \<open>app.ready()\<close> and on the times of the passes only, not on what the clock chip
  reports.
\<close>

theorem ntp_reconciliation:
  "(\<forall>wide time_at lag L t0 rtc.
      (\<forall>t. lag t \<le> L) \<and> L + 10500 \<le> 2 ^ 32
      \<longrightarrow> (\<exists>rtc' out t. setup_ntp wide time_at lag t0 rtc = Some (rtc', out, t)
                          \<and> t < t0 + 10500 + L))
   \<and> (\<forall>wide time_at lag t0 rtc k.
      (\<forall>i<k. time_below wide (time_at (poll_time lag t0 i))
              \<and> poll_time lag t0 i < t0 + 10000)
        \<and> \<not> time_below wide (time_at (poll_time lag t0 k))
      \<longrightarrow> (\<exists>out. setup_ntp wide time_at lag t0 rtc
                    = Some (rtc\<lparr>rtc_epoch := word_of_int (time_at (poll_time lag t0 k))\<rparr>,
                            out, poll_time lag t0 k)))
   \<and> (\<forall>wide time_at lag t0 rtc k.
      (\<forall>i<k. time_below wide (time_at (poll_time lag t0 i))
              \<and> poll_time lag t0 i < t0 + 10000)
        \<and> time_below wide (time_at (poll_time lag t0 k))
        \<and> t0 + 10000 \<le> poll_time lag t0 k \<and> poll_time lag t0 k < t0 + 2 ^ 32
      \<longrightarrow> (\<exists>pre. setup_ntp wide time_at lag t0 rtc
                    = Some (rtc, pre @ println ''Failed to get NTP time; RTC not updated.'',
                            poll_time lag t0 k)))
   \<and> (\<forall>s (tks :: rtc_tick list) tks'.
      map app_ready tks = map app_ready tks' \<and> map millis_sched tks = map millis_sched tks'
      \<longrightarrow> map (\<lambda>u. u \<noteq> None) (rtc_run s tks) = map (\<lambda>u. u \<noteq> None) (rtc_run s tks'))"
proof (intro conjI allI impI)
  fix wide and time_at :: "nat \<Rightarrow> int" and lag :: "nat \<Rightarrow> nat" and L t0 :: nat
    and rtc :: rtc_chip
  assume h: "(\<forall>t. lag t \<le> L) \<and> L + 10500 \<le> 2 ^ 32"
  then obtain k where
    k: "\<forall>i<k. time_below wide (time_at (poll_time lag t0 i)) \<and> poll_time lag t0 i < t0 + 10000"
    "\<not> time_below wide (time_at (poll_time lag t0 k))
       \<or> (t0 + 10000 \<le> poll_time lag t0 k \<and> poll_time lag t0 k < t0 + 2 ^ 32)"
    "poll_time lag t0 k < t0 + 10500 + L"
    using last_poll [of lag L wide time_at t0] by blast
  show "\<exists>rtc' out t. setup_ntp wide time_at lag t0 rtc = Some (rtc', out, t)
                          \<and> t < t0 + 10500 + L"
    using k(3) by (simp add: setup_ntp_polls [OF k(1,2)] Let_def)
next
  fix wide and time_at :: "nat \<Rightarrow> int" and lag :: "nat \<Rightarrow> nat" and t0 k :: nat
    and rtc :: rtc_chip
  assume h: "(\<forall>i<k. time_below wide (time_at (poll_time lag t0 i))
              \<and> poll_time lag t0 i < t0 + 10000)
        \<and> \<not> time_below wide (time_at (poll_time lag t0 k))"
  then have a: "\<forall>i<k. time_below wide (time_at (poll_time lag t0 i))
              \<and> poll_time lag t0 i < t0 + 10000"
    and b: "\<not> time_below wide (time_at (poll_time lag t0 k))
       \<or> (t0 + 10000 \<le> poll_time lag t0 k \<and> poll_time lag t0 k < t0 + 2 ^ 32)"
    by simp_all
  have "time_reached wide (time_at (poll_time lag t0 k))"
    using h by (simp add: time_reached_iff)
  then show "\<exists>out. setup_ntp wide time_at lag t0 rtc
                    = Some (rtc\<lparr>rtc_epoch := word_of_int (time_at (poll_time lag t0 k))\<rparr>,
                            out, poll_time lag t0 k)"
    by (simp add: setup_ntp_polls [OF a b] Let_def rtc_adjust_def)
next
  fix wide and time_at :: "nat \<Rightarrow> int" and lag :: "nat \<Rightarrow> nat" and t0 k :: nat
    and rtc :: rtc_chip
  assume h: "(\<forall>i<k. time_below wide (time_at (poll_time lag t0 i))
              \<and> poll_time lag t0 i < t0 + 10000)
        \<and> time_below wide (time_at (poll_time lag t0 k))
        \<and> t0 + 10000 \<le> poll_time lag t0 k \<and> poll_time lag t0 k < t0 + 2 ^ 32"
  then have a: "\<forall>i<k. time_below wide (time_at (poll_time lag t0 i))
              \<and> poll_time lag t0 i < t0 + 10000"
    and b: "\<not> time_below wide (time_at (poll_time lag t0 k))
       \<or> (t0 + 10000 \<le> poll_time lag t0 k \<and> poll_time lag t0 k < t0 + 2 ^ 32)"
    by simp_all
  have "\<not> time_reached wide (time_at (poll_time lag t0 k))"
    using h by (simp add: time_reached_iff)
  then show "\<exists>pre. setup_ntp wide time_at lag t0 rtc
                    = Some (rtc, pre @ println ''Failed to get NTP time; RTC not updated.'',
                            poll_time lag t0 k)"
    by (simp add: setup_ntp_polls [OF a b] Let_def)
next
  fix s and tks tks' :: "rtc_tick list"
  assume "map app_ready tks = map app_ready tks'
            \<and> map millis_sched tks = map millis_sched tks'"
  then have "map rtc_pass tks = map rtc_pass tks'" by (intro rtc_pass_cong) simp_all
  then show "map (\<lambda>u. u \<noteq> None) (rtc_run s tks) = map (\<lambda>u. u \<noteq> None) (rtc_run s tks')"
    by (simp only: rtc_run_sched)
qed

lemma poll_time_const: "poll_time (\<lambda>t. c) t0 i = t0 + (500 + c) * i"
  by (induction i) simp_all

lemmas ntp_eval =
  setup_ntp_def ntp_wait.simps time_below_def time_reached_def millis_def rtc_adjust_def Let_def

text \<open>
  Three runs of the wait. A reading equal to 1600000000, not above it, ends the wait
  and is written to the clock chip. With iterations of 501 ms and no accepted reading
  the wait ends 10020 ms after it began. Where \<open>time_t\<close> is 32 bits wide the reading
  - 1 is accepted and the chip is set to 4294967295.
\<close>

theorem ntp_claim_fails:
  "map_option fst (setup_ntp True (\<lambda>t. 1600000000) (\<lambda>t. 0) 0 \<lparr>rtc_epoch = 946684800\<rparr>)
     = Some \<lparr>rtc_epoch = 1600000000\<rparr>
   \<and> map_option (\<lambda>r. snd (snd r))
        (setup_ntp True (\<lambda>t. 0) (\<lambda>t. 1) 0 \<lparr>rtc_epoch = 946684800\<rparr>) = Some 10020
   \<and> map_option fst (setup_ntp False (\<lambda>t. - 1) (\<lambda>t. 0) 0 \<lparr>rtc_epoch = 946684800\<rparr>)
     = Some \<lparr>rtc_epoch = 4294967295\<rparr>"
proof (intro conjI)
  show "map_option fst (setup_ntp True (\<lambda>t. 1600000000) (\<lambda>t. 0) 0 \<lparr>rtc_epoch = 946684800\<rparr>)
     = Some \<lparr>rtc_epoch = 1600000000\<rparr>"
    by (simp add: ntp_eval)
  show "map_option (\<lambda>r. snd (snd r))
        (setup_ntp True (\<lambda>t. 0) (\<lambda>t. 1) 0 \<lparr>rtc_epoch = 946684800\<rparr>) = Some 10020"
    by (simp add: ntp_eval)
  show "map_option fst (setup_ntp False (\<lambda>t. - 1) (\<lambda>t. 0) 0 \<lparr>rtc_epoch = 946684800\<rparr>)
     = Some \<lparr>rtc_epoch = 4294967295\<rparr>"
    by (simp add: ntp_eval)
qed

theorem ntp_reconciliation_witness:
  "(\<exists>rtc' out t.
      setup_ntp True (\<lambda>t. if t < 1000 then 0 else 1709251200) (\<lambda>t. 7) 0
        \<lparr>rtc_epoch = 946684800\<rparr> = Some (rtc', out, t) \<and> t < 0 + 10500 + 7)
   \<and> \<not> time_below True 1709251200
   \<and> map_option fst
        (setup_ntp True (\<lambda>t. if t < 1000 then 0 else 1709251200) (\<lambda>t. 7) 0
           \<lparr>rtc_epoch = 946684800\<rparr>) = Some \<lparr>rtc_epoch = 1709251200\<rparr>
   \<and> map_option (\<lambda>r. snd (snd r))
        (setup_ntp True (\<lambda>t. if t < 1000 then 0 else 1709251200) (\<lambda>t. 7) 0
           \<lparr>rtc_epoch = 946684800\<rparr>) = Some 1014
   \<and> time_below True 42
   \<and> map_option fst (setup_ntp True (\<lambda>t. 42) (\<lambda>t. 7) 0 \<lparr>rtc_epoch = 946684800\<rparr>)
        = Some \<lparr>rtc_epoch = 946684800\<rparr>
   \<and> map_option (\<lambda>r. snd (snd r))
        (setup_ntp True (\<lambda>t. 42) (\<lambda>t. 7) 0 \<lparr>rtc_epoch = 946684800\<rparr>) = Some 10140
   \<and> map (\<lambda>u. u \<noteq> None)
        (rtc_run rtc_logger_init
           [example_rtc_tick 6000 1709251200, example_rtc_tick 13000 1709251207])
      = map (\<lambda>u. u \<noteq> None)
        (rtc_run rtc_logger_init
           [example_rtc_tick 6000 946684800, example_rtc_tick 13000 946684807])"
proof -
  let ?ok = "\<lambda>t :: nat. if t < 1000 then 0 else 1709251200 :: int"
  let ?no = "\<lambda>t :: nat. 42 :: int"
  let ?lag = "\<lambda>t :: nat. 7 :: nat"
  let ?rtc = "\<lparr>rtc_epoch = 946684800\<rparr>"
  note T = ntp_reconciliation
  have h1: "(\<forall>t. ?lag t \<le> 7) \<and> (7 :: nat) + 10500 \<le> 2 ^ 32" by simp
  have c1: "\<exists>rtc' out t. setup_ntp True ?ok ?lag 0 ?rtc = Some (rtc', out, t)
                          \<and> t < 0 + 10500 + 7"
    by (rule T [THEN conjunct1, THEN spec, THEN spec, THEN spec, THEN spec, THEN spec,
          THEN spec, THEN mp, OF h1])
  have nb: "\<not> time_below True 1709251200" and tb: "time_below True 42"
    by (simp_all add: time_below_def)
  have h2: "(\<forall>i<2. time_below True (?ok (poll_time ?lag 0 i)) \<and> poll_time ?lag 0 i < 0 + 10000)
        \<and> \<not> time_below True (?ok (poll_time ?lag 0 2))"
    by (auto simp add: poll_time_const time_below_def less_2_cases_iff)
  have "\<exists>out. setup_ntp True ?ok ?lag 0 ?rtc
          = Some (?rtc\<lparr>rtc_epoch := word_of_int (?ok (poll_time ?lag 0 2))\<rparr>,
                  out, poll_time ?lag 0 2)"
    by (rule T [THEN conjunct2, THEN conjunct1, THEN spec, THEN spec, THEN spec, THEN spec,
          THEN spec, THEN spec, THEN mp, OF h2])
  then obtain out where
    "setup_ntp True ?ok ?lag 0 ?rtc
       = Some (?rtc\<lparr>rtc_epoch := word_of_int (?ok (poll_time ?lag 0 2))\<rparr>,
               out, poll_time ?lag 0 2)" ..
  then have c2: "map_option fst (setup_ntp True ?ok ?lag 0 ?rtc) = Some \<lparr>rtc_epoch = 1709251200\<rparr>"
    and c2': "map_option (\<lambda>r. snd (snd r)) (setup_ntp True ?ok ?lag 0 ?rtc) = Some 1014"
    by (simp_all add: poll_time_const)
  have h3: "(\<forall>i<20. time_below True (?no (poll_time ?lag 0 i)) \<and> poll_time ?lag 0 i < 0 + 10000)
        \<and> time_below True (?no (poll_time ?lag 0 20))
        \<and> 0 + 10000 \<le> poll_time ?lag 0 20 \<and> poll_time ?lag 0 20 < 0 + 2 ^ 32"
    by (auto simp add: poll_time_const time_below_def)
  have "\<exists>pre. setup_ntp True ?no ?lag 0 ?rtc
          = Some (?rtc, pre @ println ''Failed to get NTP time; RTC not updated.'',
                  poll_time ?lag 0 20)"
    by (rule T [THEN conjunct2, THEN conjunct2, THEN conjunct1, THEN spec, THEN spec,
          THEN spec, THEN spec, THEN spec, THEN spec, THEN mp, OF h3])
  then obtain pre where
    "setup_ntp True ?no ?lag 0 ?rtc
       = Some (?rtc, pre @ println ''Failed to get NTP time; RTC not updated.'',
               poll_time ?lag 0 20)" ..
  then have c3: "map_option fst (setup_ntp True ?no ?lag 0 ?rtc) = Some ?rtc"
    and c3': "map_option (\<lambda>r. snd (snd r)) (setup_ntp True ?no ?lag 0 ?rtc) = Some 10140"
    by (simp_all add: poll_time_const)
  have h4: "map app_ready [example_rtc_tick 6000 1709251200, example_rtc_tick 13000 1709251207]
              = map app_ready [example_rtc_tick 6000 946684800, example_rtc_tick 13000 946684807]
        \<and> map millis_sched
              [example_rtc_tick 6000 1709251200, example_rtc_tick 13000 1709251207]
            = map millis_sched
              [example_rtc_tick 6000 946684800, example_rtc_tick 13000 946684807]"
    by (simp add: example_rtc_tick_def)
  have c4: "map (\<lambda>u. u \<noteq> None)
        (rtc_run rtc_logger_init
           [example_rtc_tick 6000 1709251200, example_rtc_tick 13000 1709251207])
      = map (\<lambda>u. u \<noteq> None)
        (rtc_run rtc_logger_init
           [example_rtc_tick 6000 946684800, example_rtc_tick 13000 946684807])"
    by (rule T [THEN conjunct2, THEN conjunct2, THEN conjunct2, THEN spec, THEN spec,
          THEN spec, THEN mp, OF h4])
  from c1 nb c2 c2' tb c3 c3' c4 show ?thesis by (intro conjI)
qed

end
